theory Spec2Isabelle
  imports Complex_Main "HOL-Library.Monad_Syntax"
begin

section \<open>The values of the audit script\<close>

text \<open>
  The audit script, a Node program, reads every unit file with
  \<^verbatim>\<open>JSON.parse\<close> and inspects the resulting value dynamically. A value is one of the
  seven kinds below. \<open>JUndefined\<close> is what reading a property that is not there gives; it
  never occurs inside a parsed document, but the script's checks see it.

  \<^item> \<open>JNum q\<close>: a finite number, as the rational it denotes (\<open>-0\<close> is \<open>0\<close>).
  \<^item> \<open>JStr s\<close>: a string, as the bytes of its UTF-8 encoding. Equality, emptiness,
    \<^verbatim>\<open>includes\<close> and \<^verbatim>\<open>startsWith\<close> agree on that encoding with the script's
    strings; the script never takes the length of a string.
  \<^item> \<open>JObj kvs\<close>: an object, as the list \<^verbatim>\<open>Object.entries\<close> gives for it.
\<close>

datatype jsval =
    JUndefined
  | JNull
  | JBool bool
  | JNum rat
  | JStr string
  | JArr "jsval list"
  | JObj "(string \<times> jsval) list"

text \<open>\<^verbatim>\<open>!v\<close> is \<open>\<not> truthy v\<close>.\<close>

fun truthy :: "jsval \<Rightarrow> bool" where
  "truthy JUndefined = False"
| "truthy JNull = False"
| "truthy (JBool b) = b"
| "truthy (JNum q) = (q \<noteq> 0)"
| "truthy (JStr s) = (s \<noteq> [])"
| "truthy (JArr xs) = True"
| "truthy (JObj kvs) = True"

text \<open>\<^verbatim>\<open>a || b\<close>\<close>

definition jor :: "jsval \<Rightarrow> jsval \<Rightarrow> jsval" where
  "jor a b = (if truthy a then a else b)"

text \<open>\<^verbatim>\<open>v === undefined || v === null\<close>\<close>

definition nullish :: "jsval \<Rightarrow> bool" where
  "nullish v = (v = JUndefined \<or> v = JNull)"

text \<open>
  \<^verbatim>\<open>o.k\<close> and \<^verbatim>\<open>o[k]\<close> for the property names the script reads (\<open>title\<close>, \<open>sections\<close>,
  \<open>type\<close>, \<open>items\<close>, \<open>japanese\<close>, \<open>front\<close>, \<open>correct\<close>, ...). None of them is a
  property of the prototypes of objects, arrays, strings, numbers or booleans, so the
  read gives the object's own property or \<^verbatim>\<open>undefined\<close>. On \<^verbatim>\<open>null\<close> and
  \<^verbatim>\<open>undefined\<close> the read throws a TypeError, which nothing in the script catches:
  every function below that reads a property of a value it did not check tests
  \<open>nullish\<close> first and returns \<open>None\<close> there (the run aborts without a report).
\<close>

fun field :: "jsval \<Rightarrow> string \<Rightarrow> jsval" where
  "field (JObj kvs) k = (case map_of kvs k of None \<Rightarrow> JUndefined | Some v \<Rightarrow> v)"
| "field v k = JUndefined"

text \<open>\<^verbatim>\<open>Array.isArray(v)\<close> and the elements of an array.\<close>

fun isArray :: "jsval \<Rightarrow> bool" where
  "isArray (JArr xs) = True"
| "isArray v = False"

fun elems :: "jsval \<Rightarrow> jsval list" where
  "elems (JArr xs) = xs"
| "elems v = []"

subsection \<open>Strings\<close>

fun digit :: "nat \<Rightarrow> char" where
  "digit n = char_of (48 + n)"

function show_nat :: "nat \<Rightarrow> string" where
  "show_nat n = (if n < 10 then [digit n] else show_nat (n div 10) @ [digit (n mod 10)])"
  by pat_completeness auto
termination
  by (relation "measure id") auto

declare show_nat.simps [simp del]

definition show_int :: "int \<Rightarrow> string" where
  "show_int i = (if i < 0 then ''-'' @ show_nat (nat (- i)) else show_nat (nat i))"

text \<open>
  \<^verbatim>\<open>Number.prototype.toString\<close>. A number of the script is a double, printed with the
  fewest digits that read back as the same double. An integer below \<open>2^53\<close> in
  magnitude is a double and prints as its decimal digits. How the runtime prints every
  other number (fractions, exponents, the doubles from \<open>2^53\<close> on, whose digits are
  rounded: \<open>2^60\<close> prints as \<open>1152921504606847000\<close>) is the parameter \<open>ns\<close> of the
  model.
\<close>

definition numToString :: "(rat \<Rightarrow> string) \<Rightarrow> rat \<Rightarrow> string" where
  "numToString ns q =
     (if of_int \<lfloor>q\<rfloor> = q \<and> \<bar>q\<bar> < 2 ^ 53 then show_int \<lfloor>q\<rfloor> else ns q)"

text \<open>
  \<^verbatim>\<open>`${v}`\<close> and the conversion of \<open>v\<close> to a property key. An array prints its elements
  joined by commas, \<^verbatim>\<open>null\<close> and \<^verbatim>\<open>undefined\<close> elements as nothing. An object prints
  as \<^verbatim>\<open>[object Object]\<close>, unless it has a property \<open>toString\<close> of its own: a parsed
  value is never a function, so the conversion throws a TypeError (\<open>None\<close>).
\<close>

fun toStr :: "(rat \<Rightarrow> string) \<Rightarrow> jsval \<Rightarrow> string option"
  and joinStr :: "(rat \<Rightarrow> string) \<Rightarrow> jsval list \<Rightarrow> string option"
where
  "toStr ns JUndefined = Some ''undefined''"
| "toStr ns JNull = Some ''null''"
| "toStr ns (JBool b) = Some (if b then ''true'' else ''false'')"
| "toStr ns (JNum q) = Some (numToString ns q)"
| "toStr ns (JStr s) = Some s"
| "toStr ns (JArr xs) = joinStr ns xs"
| "toStr ns (JObj kvs) =
     (if ''toString'' \<in> set (map fst kvs) then None else Some ''[object Object]'')"
| "joinStr ns [] = Some []"
| "joinStr ns [x] = (if x = JUndefined \<or> x = JNull then Some [] else toStr ns x)"
| "joinStr ns (x # y # ys) =
     do {
       a \<leftarrow> (if x = JUndefined \<or> x = JNull then Some [] else toStr ns x);
       b \<leftarrow> joinStr ns (y # ys);
       Some (a @ '','' @ b)
     }"

text \<open>\<^verbatim>\<open>s.startsWith(p)\<close> and \<^verbatim>\<open>s.includes(sub)\<close>\<close>

definition startsWith :: "string \<Rightarrow> string \<Rightarrow> bool" where
  "startsWith s p = (take (length p) s = p)"

fun includes_str :: "string \<Rightarrow> string \<Rightarrow> bool" where
  "includes_str [] sub = (sub = [])"
| "includes_str (c # cs) sub = (startsWith (c # cs) sub \<or> includes_str cs sub)"

section \<open>Content scanners\<close>

text \<open>
  \<^verbatim>\<open>findEmptyStrings(obj, currentPath, results)\<close> pushes onto \<open>results\<close> the path of
  every empty string of \<open>obj\<close>. The second and third function are its two loops: over
  the items of an array with their index, over the entries of an object.
\<close>

fun findEmptyStrings :: "jsval \<Rightarrow> string \<Rightarrow> string list \<Rightarrow> string list"
  and findEmptyStrings_items :: "jsval list \<Rightarrow> nat \<Rightarrow> string \<Rightarrow> string list \<Rightarrow> string list"
  and findEmptyStrings_entries :: "(string \<times> jsval) list \<Rightarrow> string \<Rightarrow> string list \<Rightarrow> string list"
where
  "findEmptyStrings JUndefined currentPath results = results"
| "findEmptyStrings JNull currentPath results = results"
| "findEmptyStrings (JStr s) currentPath results =
     (if s = [] then results @ [currentPath] else results)"
| "findEmptyStrings (JArr xs) currentPath results =
     findEmptyStrings_items xs 0 currentPath results"
| "findEmptyStrings (JObj kvs) currentPath results =
     findEmptyStrings_entries kvs currentPath results"
| "findEmptyStrings (JBool b) currentPath results = results"
| "findEmptyStrings (JNum q) currentPath results = results"
| "findEmptyStrings_items [] i currentPath results = results"
| "findEmptyStrings_items (item # rest) i currentPath results =
     findEmptyStrings_items rest (Suc i) currentPath
       (findEmptyStrings item (currentPath @ ''['' @ show_nat i @ '']'') results)"
| "findEmptyStrings_entries [] currentPath results = results"
| "findEmptyStrings_entries ((key, val) # rest) currentPath results =
     findEmptyStrings_entries rest currentPath
       (findEmptyStrings val (currentPath @ ''.'' @ key) results)"

text \<open>The two forbidden names, \<open>U+9ED1 U+6728\<close> and \<open>U+9ED2 U+6728\<close>, in UTF-8.\<close>

definition forbidden1 :: string where
  "forbidden1 = [CHR 0xE9, CHR 0xBB, CHR 0x91, CHR 0xE6, CHR 0x9C, CHR 0xA8]"

definition forbidden2 :: string where
  "forbidden2 = [CHR 0xE9, CHR 0xBB, CHR 0x92, CHR 0xE6, CHR 0x9C, CHR 0xA8]"

record forbidden_match =
  path :: string
  matched :: string

fun findForbiddenNames :: "jsval \<Rightarrow> string \<Rightarrow> forbidden_match list \<Rightarrow> forbidden_match list"
  and findForbiddenNames_items ::
    "jsval list \<Rightarrow> nat \<Rightarrow> string \<Rightarrow> forbidden_match list \<Rightarrow> forbidden_match list"
  and findForbiddenNames_entries ::
    "(string \<times> jsval) list \<Rightarrow> string \<Rightarrow> forbidden_match list \<Rightarrow> forbidden_match list"
where
  "findForbiddenNames JUndefined currentPath results = results"
| "findForbiddenNames JNull currentPath results = results"
| "findForbiddenNames (JStr s) currentPath results =
     (if includes_str s forbidden1 \<or> includes_str s forbidden2
      then results @
        [\<lparr>path = currentPath,
          matched = (if includes_str s forbidden1 then forbidden1 else forbidden2)\<rparr>]
      else results)"
| "findForbiddenNames (JArr xs) currentPath results =
     findForbiddenNames_items xs 0 currentPath results"
| "findForbiddenNames (JObj kvs) currentPath results =
     findForbiddenNames_entries kvs currentPath results"
| "findForbiddenNames (JBool b) currentPath results = results"
| "findForbiddenNames (JNum q) currentPath results = results"
| "findForbiddenNames_items [] i currentPath results = results"
| "findForbiddenNames_items (item # rest) i currentPath results =
     findForbiddenNames_items rest (Suc i) currentPath
       (findForbiddenNames item (currentPath @ ''['' @ show_nat i @ '']'') results)"
| "findForbiddenNames_entries [] currentPath results = results"
| "findForbiddenNames_entries ((key, val) # rest) currentPath results =
     findForbiddenNames_entries rest currentPath
       (findForbiddenNames val (currentPath @ ''.'' @ key) results)"

section \<open>Issues and the state of a run\<close>

text \<open>
  The script keeps three globals: the array \<open>issues\<close>, which only ever grows, and the
  counters \<open>totalUnitsChecked\<close> and \<open>totalSectionsChecked\<close>. Every validator is a
  function from the state before it to the state after it, or to \<open>None\<close> when it
  throws.
\<close>

record issue =
  "file" :: string
  sectionType :: string
  problem :: string

record audit_state =
  issues :: "issue list"
  totalUnitsChecked :: nat
  totalSectionsChecked :: nat

definition addIssue :: "string \<Rightarrow> string \<Rightarrow> string \<Rightarrow> audit_state \<Rightarrow> audit_state" where
  "addIssue f st p s = s\<lparr>issues := issues s @ [\<lparr>file = f, sectionType = st, problem = p\<rparr>]\<rparr>"

text \<open>
  \<^verbatim>\<open>xs.forEach((x, i) => body)\<close> is \<open>forEach body xs 0\<close>, and
  \<^verbatim>\<open>for (const x of xs) body\<close> is \<open>forOf body xs\<close>.
\<close>

fun forEach :: "('a \<Rightarrow> nat \<Rightarrow> 's \<Rightarrow> 's option) \<Rightarrow> 'a list \<Rightarrow> nat \<Rightarrow> 's \<Rightarrow> 's option" where
  "forEach body [] i s = Some s"
| "forEach body (x # xs) i s =
     (case body x i s of None \<Rightarrow> None | Some s' \<Rightarrow> forEach body xs (Suc i) s')"

fun forOf :: "('a \<Rightarrow> 's \<Rightarrow> 's option) \<Rightarrow> 'a list \<Rightarrow> 's \<Rightarrow> 's option" where
  "forOf body [] s = Some s"
| "forOf body (x # xs) s =
     (case body x s of None \<Rightarrow> None | Some s' \<Rightarrow> forOf body xs s')"

section \<open>Section validators\<close>

text \<open>
  Every validator starts with
  \<^verbatim>\<open>const prefix = `sections[${sectionIndex}] (KIND "${section.title || ''}")`\<close>.
\<close>

definition prefixOf :: "(rat \<Rightarrow> string) \<Rightarrow> string \<Rightarrow> jsval \<Rightarrow> nat \<Rightarrow> string option" where
  \<open>prefixOf ns kind section sectionIndex =
     do {
       t \<leftarrow> toStr ns (jor (field section ''title'') (JStr ''''));
       Some (''sections['' @ show_nat sectionIndex @ ''] ('' @ kind @ '' "'' @ t @ ''")'')
     }\<close>

subsection \<open>vocab\<close>

definition checkVocab_item ::
  "(rat \<Rightarrow> string) \<Rightarrow> string \<Rightarrow> string \<Rightarrow> jsval \<Rightarrow> nat \<Rightarrow> audit_state \<Rightarrow> audit_state option"
where
  \<open>checkVocab_item ns prefix filePath item i s =
     (if nullish item then None
      else forOf (\<lambda>fld s.
          if nullish (field item fld)
          then do {
            j \<leftarrow> toStr ns (jor (field item ''japanese'') (JStr ''?''));
            Some (addIssue filePath ''vocab''
              (prefix @ '': items['' @ show_nat i @ ''] missing "'' @ fld @ ''" (japanese: "'' @ j @ ''")'') s)
          }
          else Some s)
        [''japanese'', ''reading'', ''romaji'', ''chinese'', ''example'', ''exampleChinese''] s)\<close>

definition checkVocab ::
  "(rat \<Rightarrow> string) \<Rightarrow> jsval \<Rightarrow> string \<Rightarrow> nat \<Rightarrow> audit_state \<Rightarrow> audit_state option"
where
  \<open>checkVocab ns section filePath sectionIndex s =
     do {
       prefix \<leftarrow> prefixOf ns ''vocab'' section sectionIndex;
       if \<not> truthy (field section ''items'')
       then Some (addIssue filePath ''vocab'' (prefix @ '': missing "items" array'') s)
       else if \<not> isArray (field section ''items'')
       then Some (addIssue filePath ''vocab'' (prefix @ '': "items" is not an array'') s)
       else if length (elems (field section ''items'')) = 0
       then Some (addIssue filePath ''vocab'' (prefix @ '': "items" array is empty'') s)
       else forEach (checkVocab_item ns prefix filePath) (elems (field section ''items'')) 0 s
     }\<close>

subsection \<open>dialogue\<close>

definition checkDialogue_line ::
  "string \<Rightarrow> string \<Rightarrow> jsval \<Rightarrow> nat \<Rightarrow> audit_state \<Rightarrow> audit_state option"
where
  \<open>checkDialogue_line prefix filePath line i s =
     (if nullish line then None
      else forOf (\<lambda>fld s.
          if nullish (field line fld)
          then Some (addIssue filePath ''dialogue''
              (prefix @ '': lines['' @ show_nat i @ ''] missing "'' @ fld @ ''"'') s)
          else Some s)
        [''speaker'', ''japanese'', ''chinese''] s)\<close>

definition checkDialogue ::
  "(rat \<Rightarrow> string) \<Rightarrow> jsval \<Rightarrow> string \<Rightarrow> nat \<Rightarrow> audit_state \<Rightarrow> audit_state option"
where
  \<open>checkDialogue ns section filePath sectionIndex s =
     do {
       prefix \<leftarrow> prefixOf ns ''dialogue'' section sectionIndex;
       let s1 = (if \<not> truthy (field section ''scene'') \<and> field section ''scene'' \<noteq> JStr ''''
                 then addIssue filePath ''dialogue'' (prefix @ '': missing "scene"'') s else s);
       let s2 = (if field section ''scene'' = JStr ''''
                 then addIssue filePath ''dialogue'' (prefix @ '': "scene" is an empty string'') s1
                 else s1);
       if \<not> truthy (field section ''lines'')
       then Some (addIssue filePath ''dialogue'' (prefix @ '': missing "lines" array'') s2)
       else if \<not> isArray (field section ''lines'')
       then Some (addIssue filePath ''dialogue'' (prefix @ '': "lines" is not an array'') s2)
       else if length (elems (field section ''lines'')) = 0
       then Some (addIssue filePath ''dialogue'' (prefix @ '': "lines" array is empty'') s2)
       else forEach (checkDialogue_line prefix filePath) (elems (field section ''lines'')) 0 s2
     }\<close>

subsection \<open>grammar\<close>

definition checkGrammar_point ::
  "(rat \<Rightarrow> string) \<Rightarrow> string \<Rightarrow> string \<Rightarrow> jsval \<Rightarrow> nat \<Rightarrow> audit_state \<Rightarrow> audit_state option"
where
  \<open>checkGrammar_point ns prefix filePath pt i s =
     (if nullish pt then None
      else do {
        s1 \<leftarrow> forOf (\<lambda>fld s.
            if nullish (field pt fld)
            then do {
              pat \<leftarrow> toStr ns (jor (field pt ''pattern'') (JStr ''?''));
              Some (addIssue filePath ''grammar''
                (prefix @ '': points['' @ show_nat i @ ''] missing "'' @ fld @ ''" (pattern: "'' @ pat @ ''")'') s)
            }
            else Some s)
          [''pattern'', ''meaning'', ''structure''] s;
        if \<not> truthy (field pt ''examples'')
        then do {
          pat \<leftarrow> toStr ns (jor (field pt ''pattern'') (JStr ''?''));
          Some (addIssue filePath ''grammar''
            (prefix @ '': points['' @ show_nat i @ ''] missing "examples" array (pattern: "'' @ pat @ ''")'') s1)
        }
        else if \<not> isArray (field pt ''examples'') \<or> length (elems (field pt ''examples'')) = 0
        then do {
          pat \<leftarrow> toStr ns (jor (field pt ''pattern'') (JStr ''?''));
          Some (addIssue filePath ''grammar''
            (prefix @ '': points['' @ show_nat i @ ''] "examples" is empty or not an array (pattern: "'' @ pat @ ''")'') s1)
        }
        else Some s1
      })\<close>

definition checkGrammar ::
  "(rat \<Rightarrow> string) \<Rightarrow> jsval \<Rightarrow> string \<Rightarrow> nat \<Rightarrow> audit_state \<Rightarrow> audit_state option"
where
  \<open>checkGrammar ns section filePath sectionIndex s =
     do {
       prefix \<leftarrow> prefixOf ns ''grammar'' section sectionIndex;
       if \<not> truthy (field section ''points'')
       then Some (addIssue filePath ''grammar'' (prefix @ '': missing "points" array'') s)
       else if \<not> isArray (field section ''points'')
       then Some (addIssue filePath ''grammar'' (prefix @ '': "points" is not an array'') s)
       else if length (elems (field section ''points'')) = 0
       then Some (addIssue filePath ''grammar'' (prefix @ '': "points" array is empty'') s)
       else forEach (checkGrammar_point ns prefix filePath) (elems (field section ''points'')) 0 s
     }\<close>

subsection \<open>flashcards\<close>

definition checkFlashcards_card ::
  "(rat \<Rightarrow> string) \<Rightarrow> string \<Rightarrow> string \<Rightarrow> jsval \<Rightarrow> nat \<Rightarrow> audit_state \<Rightarrow> audit_state option"
where
  \<open>checkFlashcards_card ns prefix filePath crd i s =
     (if nullish crd then None
      else do {
        let s1 = (if field crd ''front'' \<noteq> JUndefined \<or> field crd ''back'' \<noteq> JUndefined
                  then addIssue filePath ''flashcards''
                    (prefix @ '': cards['' @ show_nat i @
                      ''] uses old "front/back" format instead of "japanese/reading/romaji/chinese"'') s
                  else s);
        forOf (\<lambda>fld s.
            if nullish (field crd fld)
            then do {
              j \<leftarrow> toStr ns (jor (jor (field crd ''japanese'') (field crd ''front'')) (JStr ''?''));
              Some (addIssue filePath ''flashcards''
                (prefix @ '': cards['' @ show_nat i @ ''] missing "'' @ fld @ ''" (japanese: "'' @ j @ ''")'') s)
            }
            else Some s)
          [''japanese'', ''reading'', ''romaji'', ''chinese''] s1
      })\<close>

text \<open>\<^verbatim>\<open>section.cards.map(c => c.japanese || c.front || '').filter(f => f !== '')\<close>\<close>

definition cardKey :: "jsval \<Rightarrow> jsval" where
  "cardKey c = jor (jor (field c ''japanese'') (field c ''front'')) (JStr '''')"

definition fronts :: "jsval list \<Rightarrow> jsval list" where
  "fronts cards = filter (\<lambda>f. f \<noteq> JStr '''') (map cardKey cards)"

text \<open>
  \<^verbatim>\<open>const seen = {}\<close> is an ordinary object: besides the keys the loop stores in it, it
  has the properties it inherits from \<^verbatim>\<open>Object.prototype\<close>, all of them functions or
  objects, so truthy. \<open>seen\<close> is modelled by the list of the keys stored so far.
  \<^verbatim>\<open>seen[f]\<close> converts \<open>f\<close> to a property key (\<open>toStr\<close>). Storing under \<open>__proto__\<close>
  calls the inherited setter, which ignores \<^verbatim>\<open>true\<close>.
\<close>

definition Object_prototype_keys :: "string list" where
  "Object_prototype_keys =
     [''constructor'', ''__defineGetter__'', ''__defineSetter__'', ''hasOwnProperty'',
      ''__lookupGetter__'', ''__lookupSetter__'', ''isPrototypeOf'', ''propertyIsEnumerable'',
      ''toString'', ''valueOf'', ''__proto__'', ''toLocaleString'']"

definition seen_get :: "string list \<Rightarrow> string \<Rightarrow> bool" where
  "seen_get seen k = (k \<in> set seen \<or> k \<in> set Object_prototype_keys)"

definition seen_set :: "string list \<Rightarrow> string \<Rightarrow> string list" where
  "seen_set seen k = (if k = ''__proto__'' then seen else k # seen)"

fun checkFlashcards_dups ::
  "(rat \<Rightarrow> string) \<Rightarrow> string \<Rightarrow> string \<Rightarrow> jsval list \<Rightarrow> string list \<Rightarrow> audit_state \<Rightarrow> audit_state option"
where
  \<open>checkFlashcards_dups ns prefix filePath [] seen s = Some s\<close>
| \<open>checkFlashcards_dups ns prefix filePath (f # rest) seen s =
     do {
       k \<leftarrow> toStr ns f;
       let s1 = (if seen_get seen k
                 then addIssue filePath ''flashcards''
                   (prefix @ '': DUPLICATE flashcard front/japanese value: "'' @ k @ ''"'') s
                 else s);
       checkFlashcards_dups ns prefix filePath rest (seen_set seen k) s1
     }\<close>

definition checkFlashcards ::
  "(rat \<Rightarrow> string) \<Rightarrow> jsval \<Rightarrow> string \<Rightarrow> nat \<Rightarrow> audit_state \<Rightarrow> audit_state option"
where
  \<open>checkFlashcards ns section filePath sectionIndex s =
     do {
       prefix \<leftarrow> prefixOf ns ''flashcards'' section sectionIndex;
       if \<not> truthy (field section ''cards'')
       then Some (addIssue filePath ''flashcards'' (prefix @ '': missing "cards" array'') s)
       else if \<not> isArray (field section ''cards'')
       then Some (addIssue filePath ''flashcards'' (prefix @ '': "cards" is not an array'') s)
       else if length (elems (field section ''cards'')) = 0
       then Some (addIssue filePath ''flashcards'' (prefix @ '': "cards" array is empty'') s)
       else do {
         s1 \<leftarrow> forEach (checkFlashcards_card ns prefix filePath) (elems (field section ''cards'')) 0 s;
         checkFlashcards_dups ns prefix filePath (fronts (elems (field section ''cards''))) [] s1
       }
     }\<close>

subsection \<open>quiz\<close>

text \<open>The four statements of the callback of \<^verbatim>\<open>section.questions.forEach\<close>, in order.\<close>

definition quiz_question ::
  "string \<Rightarrow> string \<Rightarrow> jsval \<Rightarrow> nat \<Rightarrow> audit_state \<Rightarrow> audit_state option"
where
  \<open>quiz_question prefix filePath q i s =
     (if \<not> truthy (field q ''question'')
      then Some (addIssue filePath ''quiz''
        (prefix @ '': questions['' @ show_nat i @ ''] missing "question"'') s)
      else Some s)\<close>

definition quiz_options ::
  "(rat \<Rightarrow> string) \<Rightarrow> string \<Rightarrow> string \<Rightarrow> jsval \<Rightarrow> nat \<Rightarrow> audit_state \<Rightarrow> audit_state option"
where
  \<open>quiz_options ns prefix filePath q i s =
     (if \<not> truthy (field q ''options'')
      then Some (addIssue filePath ''quiz''
        (prefix @ '': questions['' @ show_nat i @ ''] missing "options"'') s)
      else if \<not> isArray (field q ''options'')
      then Some (addIssue filePath ''quiz''
        (prefix @ '': questions['' @ show_nat i @ ''] "options" is not an array'') s)
      else if length (elems (field q ''options'')) \<noteq> 4
      then do {
        qt \<leftarrow> toStr ns (jor (field q ''question'') (JStr ''?''));
        Some (addIssue filePath ''quiz''
          (prefix @ '': questions['' @ show_nat i @ ''] has '' @
            show_nat (length (elems (field q ''options''))) @ '' options (expected 4): "'' @ qt @ ''"'') s)
      }
      else Some s)\<close>

text \<open>\<^verbatim>\<open>typeof v !== 'number' || v < 0 || v > 3\<close>\<close>

fun correct_out_of_range :: "jsval \<Rightarrow> bool" where
  "correct_out_of_range (JNum n) = (n < 0 \<or> n > 3)"
| "correct_out_of_range v = True"

definition quiz_correct ::
  "(rat \<Rightarrow> string) \<Rightarrow> string \<Rightarrow> string \<Rightarrow> jsval \<Rightarrow> nat \<Rightarrow> audit_state \<Rightarrow> audit_state option"
where
  \<open>quiz_correct ns prefix filePath q i s =
     (if nullish (field q ''correct'')
      then Some (addIssue filePath ''quiz''
        (prefix @ '': questions['' @ show_nat i @ ''] missing "correct"'') s)
      else if correct_out_of_range (field q ''correct'')
      then do {
        c \<leftarrow> toStr ns (field q ''correct'');
        qt \<leftarrow> toStr ns (jor (field q ''question'') (JStr ''?''));
        Some (addIssue filePath ''quiz''
          (prefix @ '': questions['' @ show_nat i @ ''] "correct" is '' @ c @
            '' (expected 0-3): "'' @ qt @ ''"'') s)
      }
      else Some s)\<close>

definition quiz_explanation ::
  "(rat \<Rightarrow> string) \<Rightarrow> string \<Rightarrow> string \<Rightarrow> jsval \<Rightarrow> nat \<Rightarrow> audit_state \<Rightarrow> audit_state option"
where
  \<open>quiz_explanation ns prefix filePath q i s =
     (if \<not> truthy (field q ''explanation'')
      then do {
        qt \<leftarrow> toStr ns (jor (field q ''question'') (JStr ''?''));
        Some (addIssue filePath ''quiz''
          (prefix @ '': questions['' @ show_nat i @ ''] missing "explanation": "'' @ qt @ ''"'') s)
      }
      else Some s)\<close>

definition checkQuiz_question ::
  "(rat \<Rightarrow> string) \<Rightarrow> string \<Rightarrow> string \<Rightarrow> jsval \<Rightarrow> nat \<Rightarrow> audit_state \<Rightarrow> audit_state option"
where
  "checkQuiz_question ns prefix filePath q i s =
     (if nullish q then None
      else do {
        s1 \<leftarrow> quiz_question prefix filePath q i s;
        s2 \<leftarrow> quiz_options ns prefix filePath q i s1;
        s3 \<leftarrow> quiz_correct ns prefix filePath q i s2;
        quiz_explanation ns prefix filePath q i s3
      })"

definition checkQuiz ::
  "(rat \<Rightarrow> string) \<Rightarrow> jsval \<Rightarrow> string \<Rightarrow> nat \<Rightarrow> audit_state \<Rightarrow> audit_state option"
where
  \<open>checkQuiz ns section filePath sectionIndex s =
     do {
       prefix \<leftarrow> prefixOf ns ''quiz'' section sectionIndex;
       if \<not> truthy (field section ''questions'')
       then Some (addIssue filePath ''quiz'' (prefix @ '': missing "questions" array'') s)
       else if \<not> isArray (field section ''questions'')
       then Some (addIssue filePath ''quiz'' (prefix @ '': "questions" is not an array'') s)
       else if length (elems (field section ''questions'')) = 0
       then Some (addIssue filePath ''quiz'' (prefix @ '': "questions" array is empty'') s)
       else forEach (checkQuiz_question ns prefix filePath) (elems (field section ''questions'')) 0 s
     }\<close>

subsection \<open>culture\<close>

definition checkCulture ::
  "(rat \<Rightarrow> string) \<Rightarrow> jsval \<Rightarrow> string \<Rightarrow> nat \<Rightarrow> audit_state \<Rightarrow> audit_state option"
where
  \<open>checkCulture ns section filePath sectionIndex s =
     do {
       prefix \<leftarrow> prefixOf ns ''culture'' section sectionIndex;
       let s1 = (if \<not> truthy (field section ''content'') \<and> field section ''content'' \<noteq> JStr ''''
                 then addIssue filePath ''culture'' (prefix @ '': missing "content"'') s else s);
       Some (if field section ''content'' = JStr ''''
             then addIssue filePath ''culture'' (prefix @ '': "content" is an empty string'') s1
             else s1)
     }\<close>

section \<open>Main audit\<close>

text \<open>
  The callback of \<^verbatim>\<open>data.sections.forEach\<close>. Its state is the run's state and the
  local \<^verbatim>\<open>sectionTypes\<close>, a \<^verbatim>\<open>Set\<close> that the script only ever asks for strings.
\<close>

definition auditUnit_section ::
  "(rat \<Rightarrow> string) \<Rightarrow> string \<Rightarrow> jsval \<Rightarrow> nat \<Rightarrow> audit_state \<times> jsval set
    \<Rightarrow> (audit_state \<times> jsval set) option"
where
  \<open>auditUnit_section ns rel section idx st =
     (case st of (s, sectionTypes) \<Rightarrow>
       let s0 = s\<lparr>totalSectionsChecked := totalSectionsChecked s + 1\<rparr> in
       if nullish section then None
       else
         let sType = field section ''type'';
             sectionTypes' = insert sType sectionTypes
         in
           if \<not> truthy sType
           then Some (addIssue rel ''general'' (''sections['' @ show_nat idx @ ''] missing "type"'') s0,
                      sectionTypes')
           else map_option (\<lambda>s'. (s', sectionTypes'))
             (if sType = JStr ''vocab'' then checkVocab ns section rel idx s0
              else if sType = JStr ''dialogue'' then checkDialogue ns section rel idx s0
              else if sType = JStr ''grammar'' then checkGrammar ns section rel idx s0
              else if sType = JStr ''flashcards'' then checkFlashcards ns section rel idx s0
              else if sType = JStr ''quiz'' then checkQuiz ns section rel idx s0
              else if sType = JStr ''culture'' then checkCulture ns section rel idx s0
              else do {
                t \<leftarrow> toStr ns sType;
                Some (addIssue rel ''general''
                  (''sections['' @ show_nat idx @ ''] has unknown type: "'' @ t @ ''"'') s0)
              }))\<close>

text \<open>The checks of the top-level fields (\<open>// 7. General fields\<close>).\<close>

definition auditUnit_general :: "string \<Rightarrow> jsval \<Rightarrow> audit_state \<Rightarrow> audit_state" where
  \<open>auditUnit_general rel data s =
     (let s1 = fold (\<lambda>fld s.
                 if nullish (field data fld)
                 then addIssue rel ''general'' (''Missing top-level field: "'' @ fld @ ''"'') s
                 else s)
               [''title'', ''intro'', ''estimatedTime'', ''sections''] s;
          s2 = (if field data ''title'' = JStr ''''
                then addIssue rel ''general'' ''"title" is an empty string'' s1 else s1);
          s3 = (if field data ''intro'' = JStr ''''
                then addIssue rel ''general'' ''"intro" is an empty string'' s2 else s2)
      in if field data ''estimatedTime'' = JStr ''''
         then addIssue rel ''general'' ''"estimatedTime" is an empty string'' s3 else s3)\<close>

text \<open>The dash of the message below is \<open>U+2014\<close>.\<close>

definition cannot_continue :: string where
  \<open>cannot_continue =
     ''"sections" is missing or not an array '' @ [CHR 0xE2, CHR 0x80, CHR 0x94] @
     '' cannot continue checking this unit''\<close>

text \<open>What follows the loop over the sections: required section types and the two scans.\<close>

definition auditUnit_required :: "string \<Rightarrow> jsval set \<Rightarrow> audit_state \<Rightarrow> audit_state" where
  \<open>auditUnit_required rel sectionTypes s =
     fold (\<lambda>req s.
         if JStr req \<notin> sectionTypes
         then addIssue rel ''missing-section'' (''Unit is missing a "'' @ req @ ''" section'') s
         else s)
       [''flashcards'', ''quiz'', ''vocab'', ''dialogue'', ''grammar''] s\<close>

definition auditUnit_forbidden :: "string \<Rightarrow> jsval \<Rightarrow> audit_state \<Rightarrow> audit_state" where
  \<open>auditUnit_forbidden rel data s =
     (let forbiddenResults = findForbiddenNames data ''root'' []
      in fold (\<lambda>r s. addIssue rel ''forbidden-name''
                 (''Found forbidden name "'' @ matched r @ ''" at '' @ path r) s)
           forbiddenResults s)\<close>

definition auditUnit_empty :: "string \<Rightarrow> jsval \<Rightarrow> audit_state \<Rightarrow> audit_state" where
  \<open>auditUnit_empty rel data s =
     (let emptyResults = findEmptyStrings data ''root'' []
      in fold (\<lambda>p s.
                 if startsWith p ''root.sections''
                 then addIssue rel ''empty-string'' (''Empty string at '' @ p) s
                 else s)
           emptyResults s)\<close>

text \<open>
  \<open>auditUnit\<close>: \<open>parsed\<close> is what reading and parsing the file gave, \<open>Inl\<close> the message
  of the exception when it threw. A parsed \<^verbatim>\<open>null\<close> makes \<^verbatim>\<open>data[field]\<close> throw.
\<close>

definition auditUnit ::
  "(rat \<Rightarrow> string) \<Rightarrow> string \<Rightarrow> string + jsval \<Rightarrow> audit_state \<Rightarrow> audit_state option"
where
  \<open>auditUnit ns rel parsed s =
     (case parsed of
        Inl message \<Rightarrow> Some (addIssue rel ''parse'' (''Failed to parse JSON: '' @ message) s)
      | Inr data \<Rightarrow>
          let s0 = s\<lparr>totalUnitsChecked := totalUnitsChecked s + 1\<rparr> in
          if nullish data then None
          else
            let s1 = auditUnit_general rel data s0 in
            if \<not> truthy (field data ''sections'') \<or> \<not> isArray (field data ''sections'')
            then Some (addIssue rel ''general'' cannot_continue s1)
            else if length (elems (field data ''sections'')) = 0
            then Some (addIssue rel ''general'' ''"sections" array is empty'' s1)
            else do {
              (s2, sectionTypes) \<leftarrow>
                forEach (auditUnit_section ns rel) (elems (field data ''sections'')) 0 (s1, {});
              Some (auditUnit_empty rel data
                     (auditUnit_forbidden rel data
                       (auditUnit_required rel sectionTypes s2)))
            })\<close>

section \<open>Cross-reference of the manifest and the files\<close>

text \<open>
  \<open>parseChaptersTsRefs\<close> extracts the references of \<^verbatim>\<open>chapters.ts\<close> with two regular
  expressions, and \<open>discoverUnitFiles\<close> lists the directories; the model takes what
  they return: the list of references (\<open>chapterId\<close> is the value \<^verbatim>\<open>parseInt\<close> gave for
  a string of digits) and the list of the paths of the unit files.
\<close>

record manifest_ref =
  chapterId :: nat
  unitId :: string

text \<open>\<^verbatim>\<open>f.split(path.sep)\<close>, the separator being \<open>/\<close>.\<close>

fun split_sep :: "string \<Rightarrow> string list" where
  "split_sep [] = [[]]"
| "split_sep (c # cs) =
     (if c = CHR ''/'' then [] # split_sep cs
      else (case split_sep cs of [] \<Rightarrow> [[c]] | p # ps \<Rightarrow> (c # p) # ps))"

text \<open>\<^verbatim>\<open>name.replace('.json', '')\<close>: the first occurrence is removed.\<close>

fun replace_json :: "string \<Rightarrow> string" where
  "replace_json [] = []"
| "replace_json (c # cs) =
     (if startsWith (c # cs) ''.json'' then drop 5 (c # cs) else c # replace_json cs)"

text \<open>
  A \<^verbatim>\<open>Set\<close> of strings, as the list of its elements in the order of insertion.
\<close>

definition Set_add :: "'a list \<Rightarrow> 'a \<Rightarrow> 'a list" where
  "Set_add S x = (if x \<in> set S then S else S @ [x])"

definition new_Set :: "'a list \<Rightarrow> 'a list" where
  "new_Set xs = foldl Set_add [] xs"

definition tsKey :: "(rat \<Rightarrow> string) \<Rightarrow> manifest_ref \<Rightarrow> string" where
  "tsKey ns r = ''ch'' @ numToString ns (of_nat (chapterId r)) @ ''/'' @ unitId r"

text \<open>
  \<^verbatim>\<open>parts[parts.length - 2]\<close> is \<^verbatim>\<open>undefined\<close> when the path has no separator, and prints
  as such.
\<close>

definition actualKey :: "string \<Rightarrow> string" where
  "actualKey f =
     (let parts = split_sep f;
          ch = (if 2 \<le> length parts then parts ! (length parts - 2) else ''undefined'');
          unit = replace_json (parts ! (length parts - 1))
      in ch @ ''/'' @ unit)"

text \<open>The two kinds of lines the cross-reference prints, each with the key it names.\<close>

datatype finding = MISSING_FILE string | ORPHAN_FILE string

definition crossReferenceChapters ::
  "(rat \<Rightarrow> string) \<Rightarrow> manifest_ref list \<Rightarrow> string list \<Rightarrow> finding list \<times> nat"
where
  "crossReferenceChapters ns tsRefs actualFiles =
     (let tsSet = new_Set (map (tsKey ns) tsRefs);
          actualSet = new_Set (map actualKey actualFiles);
          st1 = fold (\<lambda>ref (out, crossIssues).
                    if ref \<notin> set actualSet then (out @ [MISSING_FILE ref], crossIssues + 1)
                    else (out, crossIssues))
                  tsSet ([], 0);
          st2 = fold (\<lambda>actual (out, crossIssues).
                    if actual \<notin> set tsSet then (out @ [ORPHAN_FILE actual], crossIssues + 1)
                    else (out, crossIssues))
                  actualSet st1
      in st2)"

section \<open>The run and its verdict\<close>

record unit_file =
  absPath :: string
  relPath :: string
  content :: "string + jsval"

datatype verdict = PASS | FAIL nat

definition finalVerdict :: "issue list \<Rightarrow> nat \<Rightarrow> verdict" where
  "finalVerdict iss crossIssues =
     (let totalProblems = length iss + crossIssues
      in if totalProblems = 0 then PASS else FAIL totalProblems)"

definition initial_state :: audit_state where
  "initial_state = \<lparr>issues = [], totalUnitsChecked = 0, totalSectionsChecked = 0\<rparr>"

definition runAudit ::
  "(rat \<Rightarrow> string) \<Rightarrow> unit_file list \<Rightarrow> manifest_ref list
    \<Rightarrow> (audit_state \<times> finding list \<times> verdict) option"
where
  "runAudit ns unitFiles tsRefs =
     do {
       s \<leftarrow> forOf (\<lambda>f. auditUnit ns (relPath f) (content f)) unitFiles initial_state;
       let (out, crossIssues) = crossReferenceChapters ns tsRefs (map absPath unitFiles);
       Some (s, out, finalVerdict (issues s) crossIssues)
     }"

section \<open>Notions of the specification\<close>

text \<open>
  The specification asks that \<open>correct\<close> be an integer in \<open>[0,3]\<close>; the script tests
  that it is a number in that interval.
\<close>

definition integer_in_0_3 :: "jsval \<Rightarrow> bool" where
  "integer_in_0_3 v = (v = JNum 0 \<or> v = JNum 1 \<or> v = JNum 2 \<or> v = JNum 3)"

fun number_in_0_3 :: "jsval \<Rightarrow> bool" where
  "number_in_0_3 (JNum n) = (0 \<le> n \<and> n \<le> 3)"
| "number_in_0_3 v = False"


text \<open>
  The repeat occurrences of a list of keys: every key that occurs at an earlier
  position (or in \<open>earlier\<close>), once for each such position, in order.
\<close>

fun repeats_from :: "string list \<Rightarrow> string list \<Rightarrow> string list" where
  "repeats_from earlier [] = []"
| "repeats_from earlier (k # ks) =
     (if k \<in> set earlier then [k] else []) @ repeats_from (k # earlier) ks"

text \<open>The three kinds of Issues of the flashcards validator on a card.\<close>

definition duplicate_issue :: "string \<Rightarrow> string \<Rightarrow> string \<Rightarrow> issue" where
  \<open>duplicate_issue filePath prefix k =
     \<lparr>file = filePath, sectionType = ''flashcards'',
      problem = prefix @ '': DUPLICATE flashcard front/japanese value: "'' @ k @ ''"''\<rparr>\<close>



subsection \<open>The data model of the specification\<close>

text \<open>
  The invariants that section 3 of the specification states for a unit document, read
  on parsed values: a field of a given shape is a string, an optional field is a string
  or absent, a sequence is an array.
\<close>

fun is_str :: "jsval \<Rightarrow> bool" where
  "is_str (JStr s) = True"
| "is_str v = False"

fun nonempty_str :: "jsval \<Rightarrow> bool" where
  "nonempty_str (JStr s) = (s \<noteq> [])"
| "nonempty_str v = False"

fun str_of :: "jsval \<Rightarrow> string" where
  "str_of (JStr s) = s"
| "str_of v = []"

definition opt_str :: "jsval \<Rightarrow> bool" where
  "opt_str v = (v = JUndefined \<or> is_str v)"

definition inv_VocabItem :: "jsval \<Rightarrow> bool" where
  "inv_VocabItem it =
     (is_str (field it ''japanese'') \<and> is_str (field it ''reading'')
      \<and> is_str (field it ''romaji'') \<and> is_str (field it ''chinese'')
      \<and> opt_str (field it ''example'') \<and> opt_str (field it ''exampleChinese''))"

definition inv_DialogueLine :: "jsval \<Rightarrow> bool" where
  "inv_DialogueLine l =
     (is_str (field l ''speaker'') \<and> is_str (field l ''japanese'')
      \<and> is_str (field l ''chinese''))"

definition inv_GrammarExample :: "jsval \<Rightarrow> bool" where
  "inv_GrammarExample e = (is_str (field e ''japanese'') \<and> is_str (field e ''chinese''))"

definition inv_GrammarPoint :: "jsval \<Rightarrow> bool" where
  "inv_GrammarPoint pt =
     (is_str (field pt ''pattern'') \<and> is_str (field pt ''meaning'')
      \<and> is_str (field pt ''structure'')
      \<and> isArray (field pt ''examples'') \<and> elems (field pt ''examples'') \<noteq> []
      \<and> list_all inv_GrammarExample (elems (field pt ''examples''))
      \<and> opt_str (field pt ''note''))"

definition inv_Card :: "jsval \<Rightarrow> bool" where
  "inv_Card c =
     (inv_VocabItem c \<and> field c ''front'' = JUndefined \<and> field c ''back'' = JUndefined)"

definition inv_QuizQuestion :: "jsval \<Rightarrow> bool" where
  "inv_QuizQuestion q =
     (is_str (field q ''question'')
      \<and> isArray (field q ''options'') \<and> length (elems (field q ''options'')) = 4
      \<and> list_all is_str (elems (field q ''options''))
      \<and> integer_in_0_3 (field q ''correct'')
      \<and> is_str (field q ''explanation''))"

definition inv_Section :: "jsval \<Rightarrow> bool" where
  "inv_Section sec =
     (is_str (field sec ''title'') \<and>
      (if field sec ''type'' = JStr ''vocab''
       then isArray (field sec ''items'') \<and> list_all inv_VocabItem (elems (field sec ''items''))
       else if field sec ''type'' = JStr ''dialogue''
       then nonempty_str (field sec ''scene'') \<and> isArray (field sec ''lines'')
            \<and> list_all inv_DialogueLine (elems (field sec ''lines''))
       else if field sec ''type'' = JStr ''grammar''
       then isArray (field sec ''points'') \<and> list_all inv_GrammarPoint (elems (field sec ''points''))
       else if field sec ''type'' = JStr ''flashcards''
       then isArray (field sec ''cards'') \<and> list_all inv_Card (elems (field sec ''cards''))
            \<and> distinct (map (\<lambda>c. field c ''japanese'') (elems (field sec ''cards'')))
       else if field sec ''type'' = JStr ''quiz''
       then isArray (field sec ''questions'')
            \<and> list_all inv_QuizQuestion (elems (field sec ''questions''))
       else if field sec ''type'' = JStr ''culture''
       then nonempty_str (field sec ''content'')
       else False))"

definition inv_UnitDocument :: "jsval \<Rightarrow> bool" where
  "inv_UnitDocument d =
     (is_str (field d ''id'')
      \<and> nonempty_str (field d ''title'') \<and> nonempty_str (field d ''intro'')
      \<and> nonempty_str (field d ''estimatedTime'')
      \<and> isArray (field d ''sections'') \<and> elems (field d ''sections'') \<noteq> []
      \<and> list_all inv_Section (elems (field d ''sections'')))"

text \<open>
  What the validators ask beyond section 3. \<open>all_strings P v\<close>: every string value
  anywhere in the tree \<open>v\<close> satisfies \<open>P\<close>. \<open>extras_Section\<close>: the sequence of the
  section is not empty, vocab items carry \<open>example\<close> and \<open>exampleChinese\<close>, and no
  flashcard \<open>japanese\<close> value is the name of a property that every object inherits.
  \<open>audit_extras\<close>: that for every section, a section of each of the five required
  types, neither forbidden name in any string, and no empty string under \<open>sections\<close>
  (nor under another top-level field whose name starts with \<open>sections\<close>). An
  empty string elsewhere, such as an empty \<open>id\<close>, is allowed.
\<close>

fun all_strings :: "(string \<Rightarrow> bool) \<Rightarrow> jsval \<Rightarrow> bool"
  and all_strings_items :: "(string \<Rightarrow> bool) \<Rightarrow> jsval list \<Rightarrow> bool"
  and all_strings_entries :: "(string \<Rightarrow> bool) \<Rightarrow> (string \<times> jsval) list \<Rightarrow> bool"
where
  "all_strings P (JStr s) = P s"
| "all_strings P (JArr xs) = all_strings_items P xs"
| "all_strings P (JObj kvs) = all_strings_entries P kvs"
| "all_strings P JUndefined = True"
| "all_strings P JNull = True"
| "all_strings P (JBool b) = True"
| "all_strings P (JNum q) = True"
| "all_strings_items P [] = True"
| "all_strings_items P (x # xs) = (all_strings P x \<and> all_strings_items P xs)"
| "all_strings_entries P [] = True"
| "all_strings_entries P ((k, v) # kvs) = (all_strings P v \<and> all_strings_entries P kvs)"

text \<open>\<^verbatim>\<open>Object.entries(v)\<close> for an object.\<close>

fun entries :: "jsval \<Rightarrow> (string \<times> jsval) list" where
  "entries (JObj kvs) = kvs"
| "entries v = []"

definition extras_Section :: "jsval \<Rightarrow> bool" where
  "extras_Section sec =
     (if field sec ''type'' = JStr ''vocab''
      then elems (field sec ''items'') \<noteq> []
           \<and> list_all (\<lambda>it. is_str (field it ''example'') \<and> is_str (field it ''exampleChinese''))
                (elems (field sec ''items''))
      else if field sec ''type'' = JStr ''dialogue'' then elems (field sec ''lines'') \<noteq> []
      else if field sec ''type'' = JStr ''grammar'' then elems (field sec ''points'') \<noteq> []
      else if field sec ''type'' = JStr ''flashcards''
      then elems (field sec ''cards'') \<noteq> []
           \<and> list_all (\<lambda>c. str_of (field c ''japanese'') \<notin> set Object_prototype_keys)
                (elems (field sec ''cards''))
      else if field sec ''type'' = JStr ''quiz'' then elems (field sec ''questions'') \<noteq> []
      else True)"

definition audit_extras :: "jsval \<Rightarrow> bool" where
  "audit_extras d =
     (list_all extras_Section (elems (field d ''sections''))
      \<and> list_all (\<lambda>req. JStr req \<in> set (map (\<lambda>sec. field sec ''type'') (elems (field d ''sections''))))
           [''flashcards'', ''quiz'', ''vocab'', ''dialogue'', ''grammar'']
      \<and> all_strings (\<lambda>s. \<not> includes_str s forbidden1 \<and> \<not> includes_str s forbidden2) d
      \<and> list_all (\<lambda>kv. all_strings (\<lambda>s. s \<noteq> []) (snd kv))
           (filter (\<lambda>kv. startsWith (fst kv) ''sections'') (entries d)))"

text \<open>
  A unit with one section of each of the five required types, for a given vocab item.
\<close>

definition example_sections :: "jsval \<Rightarrow> jsval" where
  "example_sections vocabItem =
     JArr [
       JObj [(''type'', JStr ''vocab''), (''title'', JStr ''V''), (''items'', JArr [vocabItem])],
       JObj [(''type'', JStr ''dialogue''), (''title'', JStr ''D''), (''scene'', JStr ''park''),
         (''lines'', JArr [JObj [(''speaker'', JStr ''A''), (''japanese'', JStr ''hai''),
            (''chinese'', JStr ''shi'')]])],
       JObj [(''type'', JStr ''grammar''), (''title'', JStr ''G''),
         (''points'', JArr [JObj [(''pattern'', JStr ''p''), (''meaning'', JStr ''m''),
            (''structure'', JStr ''s''),
            (''examples'', JArr [JObj [(''japanese'', JStr ''j''), (''chinese'', JStr ''c'')]])]])],
       JObj [(''type'', JStr ''flashcards''), (''title'', JStr ''F''),
         (''cards'', JArr [JObj [(''japanese'', JStr ''neko''), (''reading'', JStr ''neko''),
            (''romaji'', JStr ''neko''), (''chinese'', JStr ''mao'')]])],
       JObj [(''type'', JStr ''quiz''), (''title'', JStr ''Q''),
         (''questions'', JArr [JObj [(''question'', JStr ''q?''),
            (''options'', JArr [JStr ''a'', JStr ''b'', JStr ''c'', JStr ''d'']),
            (''correct'', JNum 2), (''explanation'', JStr ''e'')]])]]"

definition example_unit :: "jsval \<Rightarrow> jsval" where
  "example_unit vocabItem =
     JObj [(''id'', JStr ''unit1''), (''title'', JStr ''T''), (''intro'', JStr ''I''),
           (''estimatedTime'', JStr ''10''), (''sections'', example_sections vocabItem)]"


text \<open>The same unit with an empty \<open>id\<close>.\<close>

definition example_unit_empty_id :: "jsval \<Rightarrow> jsval" where
  "example_unit_empty_id vocabItem =
     JObj [(''id'', JStr ''''), (''title'', JStr ''T''), (''intro'', JStr ''I''),
           (''estimatedTime'', JStr ''10''), (''sections'', example_sections vocabItem)]"

subsection \<open>What the validators report\<close>




















subsection \<open>Pairs of the cross-reference\<close>

text \<open>
  The pair of a reference of the manifest, and the pair of a unit file: the number
  that the digits after \<open>ch\<close> in the name of its directory denote (which
  \<open>discoverUnitFiles\<close> sorts the directories by) and the name of the file without
  \<open>.json\<close>. \<open>pairKey\<close> writes a pair as \<open>ch<N>/<unit>\<close> with \<open>N\<close> in decimal digits.
  A file is \<open>canonical\<close> when its directory is named that way, without leading zeros.
\<close>

definition manifestPair :: "manifest_ref \<Rightarrow> nat \<times> string" where
  "manifestPair r = (chapterId r, unitId r)"

definition parse_digits :: "string \<Rightarrow> nat" where
  "parse_digits ds = foldl (\<lambda>a c. 10 * a + (of_char c - 48)) 0 ds"

definition chapterDir :: "string \<Rightarrow> string" where
  "chapterDir f =
     (let parts = split_sep f
      in if 2 \<le> length parts then parts ! (length parts - 2) else ''undefined'')"

definition unitName :: "string \<Rightarrow> string" where
  "unitName f = (let parts = split_sep f in replace_json (parts ! (length parts - 1)))"

definition diskPair :: "string \<Rightarrow> nat \<times> string" where
  "diskPair f = (parse_digits (drop 2 (chapterDir f)), unitName f)"

definition pairKey :: "nat \<times> string \<Rightarrow> string" where
  "pairKey p = ''ch'' @ show_nat (fst p) @ ''/'' @ snd p"

definition canonical :: "string \<Rightarrow> bool" where
  "canonical f = (chapterDir f = ''ch'' @ show_nat (fst (diskPair f)))"

section \<open>Properties of the scanners\<close>

text \<open>
  A scanner only appends to \<open>results\<close>, and what it appends does not depend on what
  \<open>results\<close> holds already. The two loops are proved together with the scanner; the
  accumulator is quantified in the statement, since each recursive call changes it.
\<close>

lemma findEmptyStrings_append_aux:
  fixes d1 d2 d3 :: "string list"
  shows "\<forall>rs. findEmptyStrings obj p rs = rs @ findEmptyStrings obj p []"
  and "\<forall>rs. findEmptyStrings_items xs i p2 rs = rs @ findEmptyStrings_items xs i p2 []"
  and "\<forall>rs. findEmptyStrings_entries kvs p3 rs = rs @ findEmptyStrings_entries kvs p3 []"
proof (induction obj p d1 and xs i p2 d2 and kvs p3 d3
    rule: findEmptyStrings_findEmptyStrings_items_findEmptyStrings_entries.induct)
  case (4 xs currentPath results)
  show ?case unfolding findEmptyStrings.simps by (rule "4.IH")
next
  case (5 kvs currentPath results)
  show ?case unfolding findEmptyStrings.simps by (rule "5.IH")
next
  case (9 item rest i currentPath results)
  show ?case
  proof
    fix rs
    let ?q = "currentPath @ ''['' @ show_nat i @ '']''"
    have a: "findEmptyStrings_items rest (Suc i) currentPath (findEmptyStrings item ?q rs)
        = findEmptyStrings item ?q rs @ findEmptyStrings_items rest (Suc i) currentPath []"
      using "9.IH"(2) by blast
    have b: "findEmptyStrings item ?q rs = rs @ findEmptyStrings item ?q []"
      using "9.IH"(1) by blast
    have c: "findEmptyStrings_items rest (Suc i) currentPath (findEmptyStrings item ?q [])
        = findEmptyStrings item ?q [] @ findEmptyStrings_items rest (Suc i) currentPath []"
      using "9.IH"(2) by blast
    have "findEmptyStrings_items (item # rest) i currentPath rs
        = findEmptyStrings item ?q rs @ findEmptyStrings_items rest (Suc i) currentPath []"
      by (simp only: findEmptyStrings_items.simps a)
    also have "\<dots> = rs @ (findEmptyStrings item ?q [] @ findEmptyStrings_items rest (Suc i) currentPath [])"
      by (simp only: b append_assoc)
    also have "\<dots> = rs @ findEmptyStrings_items (item # rest) i currentPath []"
      by (simp only: findEmptyStrings_items.simps c)
    finally show "findEmptyStrings_items (item # rest) i currentPath rs
        = rs @ findEmptyStrings_items (item # rest) i currentPath []" .
  qed
next
  case (11 key val rest currentPath results)
  show ?case
  proof
    fix rs
    let ?q = "currentPath @ ''.'' @ key"
    have a: "findEmptyStrings_entries rest currentPath (findEmptyStrings val ?q rs)
        = findEmptyStrings val ?q rs @ findEmptyStrings_entries rest currentPath []"
      using "11.IH"(2) by blast
    have b: "findEmptyStrings val ?q rs = rs @ findEmptyStrings val ?q []"
      using "11.IH"(1) by blast
    have c: "findEmptyStrings_entries rest currentPath (findEmptyStrings val ?q [])
        = findEmptyStrings val ?q [] @ findEmptyStrings_entries rest currentPath []"
      using "11.IH"(2) by blast
    have "findEmptyStrings_entries ((key, val) # rest) currentPath rs
        = findEmptyStrings val ?q rs @ findEmptyStrings_entries rest currentPath []"
      by (simp only: findEmptyStrings_entries.simps a)
    also have "\<dots> = rs @ (findEmptyStrings val ?q [] @ findEmptyStrings_entries rest currentPath [])"
      by (simp only: b append_assoc)
    also have "\<dots> = rs @ findEmptyStrings_entries ((key, val) # rest) currentPath []"
      by (simp only: findEmptyStrings_entries.simps c)
    finally show "findEmptyStrings_entries ((key, val) # rest) currentPath rs
        = rs @ findEmptyStrings_entries ((key, val) # rest) currentPath []" .
  qed
qed simp_all

lemma findEmptyStrings_append:
  "findEmptyStrings obj p rs = rs @ findEmptyStrings obj p []"
  "findEmptyStrings_items xs i p rs = rs @ findEmptyStrings_items xs i p []"
  "findEmptyStrings_entries kvs p rs = rs @ findEmptyStrings_entries kvs p []"
  using findEmptyStrings_append_aux by blast+

lemma findForbiddenNames_append_aux:
  fixes d1 d2 d3 :: "forbidden_match list"
  shows "\<forall>rs. findForbiddenNames obj p rs = rs @ findForbiddenNames obj p []"
  and "\<forall>rs. findForbiddenNames_items xs i p2 rs = rs @ findForbiddenNames_items xs i p2 []"
  and "\<forall>rs. findForbiddenNames_entries kvs p3 rs = rs @ findForbiddenNames_entries kvs p3 []"
proof (induction obj p d1 and xs i p2 d2 and kvs p3 d3
    rule: findForbiddenNames_findForbiddenNames_items_findForbiddenNames_entries.induct)
  case (4 xs currentPath results)
  show ?case unfolding findForbiddenNames.simps by (rule "4.IH")
next
  case (5 kvs currentPath results)
  show ?case unfolding findForbiddenNames.simps by (rule "5.IH")
next
  case (9 item rest i currentPath results)
  show ?case
  proof
    fix rs
    let ?q = "currentPath @ ''['' @ show_nat i @ '']''"
    have a: "findForbiddenNames_items rest (Suc i) currentPath (findForbiddenNames item ?q rs)
        = findForbiddenNames item ?q rs @ findForbiddenNames_items rest (Suc i) currentPath []"
      using "9.IH"(2) by blast
    have b: "findForbiddenNames item ?q rs = rs @ findForbiddenNames item ?q []"
      using "9.IH"(1) by blast
    have c: "findForbiddenNames_items rest (Suc i) currentPath (findForbiddenNames item ?q [])
        = findForbiddenNames item ?q [] @ findForbiddenNames_items rest (Suc i) currentPath []"
      using "9.IH"(2) by blast
    have "findForbiddenNames_items (item # rest) i currentPath rs
        = findForbiddenNames item ?q rs @ findForbiddenNames_items rest (Suc i) currentPath []"
      by (simp only: findForbiddenNames_items.simps a)
    also have "\<dots> = rs @ (findForbiddenNames item ?q [] @ findForbiddenNames_items rest (Suc i) currentPath [])"
      by (simp only: b append_assoc)
    also have "\<dots> = rs @ findForbiddenNames_items (item # rest) i currentPath []"
      by (simp only: findForbiddenNames_items.simps c)
    finally show "findForbiddenNames_items (item # rest) i currentPath rs
        = rs @ findForbiddenNames_items (item # rest) i currentPath []" .
  qed
next
  case (11 key val rest currentPath results)
  show ?case
  proof
    fix rs
    let ?q = "currentPath @ ''.'' @ key"
    have a: "findForbiddenNames_entries rest currentPath (findForbiddenNames val ?q rs)
        = findForbiddenNames val ?q rs @ findForbiddenNames_entries rest currentPath []"
      using "11.IH"(2) by blast
    have b: "findForbiddenNames val ?q rs = rs @ findForbiddenNames val ?q []"
      using "11.IH"(1) by blast
    have c: "findForbiddenNames_entries rest currentPath (findForbiddenNames val ?q [])
        = findForbiddenNames val ?q [] @ findForbiddenNames_entries rest currentPath []"
      using "11.IH"(2) by blast
    have "findForbiddenNames_entries ((key, val) # rest) currentPath rs
        = findForbiddenNames val ?q rs @ findForbiddenNames_entries rest currentPath []"
      by (simp only: findForbiddenNames_entries.simps a)
    also have "\<dots> = rs @ (findForbiddenNames val ?q [] @ findForbiddenNames_entries rest currentPath [])"
      by (simp only: b append_assoc)
    also have "\<dots> = rs @ findForbiddenNames_entries ((key, val) # rest) currentPath []"
      by (simp only: findForbiddenNames_entries.simps c)
    finally show "findForbiddenNames_entries ((key, val) # rest) currentPath rs
        = rs @ findForbiddenNames_entries ((key, val) # rest) currentPath []" .
  qed
qed simp_all

lemma findForbiddenNames_append:
  "findForbiddenNames obj p rs = rs @ findForbiddenNames obj p []"
  "findForbiddenNames_items xs i p rs = rs @ findForbiddenNames_items xs i p []"
  "findForbiddenNames_entries kvs p rs = rs @ findForbiddenNames_entries kvs p []"
  using findForbiddenNames_append_aux by blast+

lemma fold_addIssue_filter:
  "fold (\<lambda>x s. if P x then addIssue f t (m x) s else s) xs s =
     s\<lparr>issues := issues s @ map (\<lambda>x. \<lparr>file = f, sectionType = t, problem = m x\<rparr>) (filter P xs)\<rparr>"
  by (induction xs arbitrary: s) (simp_all add: addIssue_def)

lemma fold_addIssue_all:
  "fold (\<lambda>x s. addIssue f t (m x) s) xs s =
     s\<lparr>issues := issues s @ map (\<lambda>x. \<lparr>file = f, sectionType = t, problem = m x\<rparr>) xs\<rparr>"
  using fold_addIssue_filter [of "\<lambda>x. True" f t m xs s] by simp

text \<open>
  Claim C8. Both content scanners are idempotent and stateless. A scan appends to the
  array it is given a list that depends on the document tree and the starting path
  alone, so a second scan of the same tree appends the same results again, and the
  Issues that \<open>auditUnit\<close> records from the two scans of a document are the same whatever
  the earlier documents left in the state.
\<close>

theorem scanners_idempotent_stateless:
  "findEmptyStrings obj p rs = rs @ findEmptyStrings obj p []
   \<and> findForbiddenNames obj p fs = fs @ findForbiddenNames obj p []
   \<and> findEmptyStrings obj p (findEmptyStrings obj p []) =
       findEmptyStrings obj p [] @ findEmptyStrings obj p []
   \<and> findForbiddenNames obj p (findForbiddenNames obj p []) =
       findForbiddenNames obj p [] @ findForbiddenNames obj p []
   \<and> issues (auditUnit_empty r obj s) = issues s @ issues (auditUnit_empty r obj initial_state)
   \<and> issues (auditUnit_forbidden r obj s) =
       issues s @ issues (auditUnit_forbidden r obj initial_state)"
proof -
  have e: "findEmptyStrings obj p rs = rs @ findEmptyStrings obj p []" for rs
    by (rule findEmptyStrings_append(1))
  have f: "findForbiddenNames obj p fs = fs @ findForbiddenNames obj p []" for fs
    by (rule findForbiddenNames_append(1))
  have ae: "issues (auditUnit_empty r obj s) = issues s @ issues (auditUnit_empty r obj initial_state)"
    by (simp add: auditUnit_empty_def fold_addIssue_filter initial_state_def)
  have af: "issues (auditUnit_forbidden r obj s) =
      issues s @ issues (auditUnit_forbidden r obj initial_state)"
    by (simp add: auditUnit_forbidden_def fold_addIssue_all initial_state_def)
  show ?thesis
    using e [of rs] e [of "findEmptyStrings obj p []"]
      f [of fs] f [of "findForbiddenNames obj p []"] ae af
    by blast
qed

section \<open>Auxiliary facts\<close>

lemma addIssue_neq: "addIssue f t p s \<noteq> s" "s \<noteq> addIssue f t p s"
proof -
  have "length (issues (addIssue f t p s)) \<noteq> length (issues s)"
    by (simp add: addIssue_def)
  then show "addIssue f t p s \<noteq> s" "s \<noteq> addIssue f t p s"
    by metis+
qed

lemma addIssue_inject: "addIssue f t p s = addIssue f' t' p' s \<longleftrightarrow> f = f' \<and> t = t' \<and> p = p'"
proof
  assume "addIssue f t p s = addIssue f' t' p' s"
  then have "issues (addIssue f t p s) = issues (addIssue f' t' p' s)" by simp
  then show "f = f' \<and> t = t' \<and> p = p'" by (simp add: addIssue_def)
qed simp

lemma show_nat_0: "show_nat 0 = ''0''" by code_simp
lemma show_nat_1: "show_nat (Suc 0) = ''1''" by code_simp
lemma show_nat_2: "show_nat 2 = ''2''" by code_simp
lemma show_nat_3: "show_nat 3 = ''3''" by code_simp
lemma show_nat_4: "show_nat 4 = ''4''" by code_simp
lemma show_nat_5: "show_nat 5 = ''5''" by code_simp
lemma show_nat_2': "show_nat (Suc (Suc 0)) = ''2''" by code_simp
lemma show_nat_3': "show_nat (Suc (Suc (Suc 0))) = ''3''" by code_simp

lemmas show_nat_small =
  show_nat_0 show_nat_1 show_nat_2 show_nat_3 show_nat_4 show_nat_5 show_nat_2' show_nat_3'

lemma numToString_small:
  "numToString ns 0 = ''0''" "numToString ns 2 = ''2''"
  "numToString ns 3 = ''3''" "numToString ns 4 = ''4''"
  by (simp_all add: numToString_def show_int_def show_nat_small)


subsection \<open>Decimal digits\<close>

lemma show_nat_unfold:
  "n < 10 \<Longrightarrow> show_nat n = [digit n]"
  "\<not> n < 10 \<Longrightarrow> show_nat n = show_nat (n div 10) @ [digit (n mod 10)]"
  by (simp_all add: show_nat.simps [of n])

lemma show_nat_nonempty: "show_nat n \<noteq> []"
  by (cases "n < 10") (simp_all add: show_nat_unfold)

lemma digit_inj: "a < 10 \<Longrightarrow> b < 10 \<Longrightarrow> digit a = digit b \<Longrightarrow> a = b"
  by simp

lemma digit_range: "a < 10 \<Longrightarrow> digit a \<in> set ''0123456789''"
proof -
  assume a: "a < 10"
  have "list_all (\<lambda>a. digit a \<in> set ''0123456789'') [0..<10]" by code_simp
  then show ?thesis using a by (simp only: list_all_iff) (simp del: digit.simps)
qed

lemma show_nat_digits: "set (show_nat n) \<subseteq> set ''0123456789''"
proof (induction n rule: show_nat.induct)
  case (1 n)
  show ?case
  proof (cases "n < 10")
    case True
    then show ?thesis using digit_range [of n] by (simp add: show_nat_unfold del: digit.simps)
  next
    case False
    have "n mod 10 < 10" by simp
    then show ?thesis
      using False 1 digit_range [of "n mod 10"]
      by (simp add: show_nat_unfold del: digit.simps)
  qed
qed

lemma show_nat_no_char: "c \<notin> set ''0123456789'' \<Longrightarrow> c \<notin> set (show_nat n)"
  using show_nat_digits [of n] by blast

lemma show_nat_inj: "show_nat n = show_nat m \<Longrightarrow> n = m"
proof (induction n arbitrary: m rule: show_nat.induct)
  case (1 n)
  show ?case
  proof (cases "n < 10")
    case n: True
    show ?thesis
    proof (cases "m < 10")
      case True
      then show ?thesis using n "1.prems" digit_inj [of n m]
        by (simp add: show_nat_unfold del: digit.simps)
    next
      case False
      then show ?thesis using n "1.prems" show_nat_nonempty [of "m div 10"]
        by (simp add: show_nat_unfold del: digit.simps)
    qed
  next
    case n: False
    show ?thesis
    proof (cases "m < 10")
      case True
      then show ?thesis using n "1.prems" show_nat_nonempty [of "n div 10"]
        by (simp add: show_nat_unfold del: digit.simps)
    next
      case False
      have e: "show_nat (n div 10) = show_nat (m div 10)" "digit (n mod 10) = digit (m mod 10)"
        using n False "1.prems" by (simp_all add: show_nat_unfold del: digit.simps)
      have "n div 10 = m div 10" using "1.IH" [OF n e(1)] .
      moreover have "n mod 10 = m mod 10"
        using digit_inj [OF _ _ e(2)] by simp
      ultimately show ?thesis by (metis div_mult_mod_eq)
    qed
  qed
qed

lemma split_at_char:
  assumes "c \<notin> set a" "c \<notin> set b" "a @ c # u = b @ c # v"
  shows "a = b \<and> u = v"
proof -
  have "takeWhile (\<lambda>x. x \<noteq> c) (a @ c # u) = a"
    using assms(1) by (subst takeWhile_append2) auto
  moreover have "takeWhile (\<lambda>x. x \<noteq> c) (b @ c # v) = b"
    using assms(2) by (subst takeWhile_append2) auto
  ultimately have "a = b" using assms(3) by simp
  then show ?thesis using assms(3) by simp
qed

subsection \<open>Prefixes\<close>

lemma startsWith_append_same: "startsWith (a @ b) (a @ c) = startsWith b c"
  by (simp add: startsWith_def)



subsection \<open>Loops that only record Issues\<close>

lemma isArray_truthy: "isArray v \<Longrightarrow> truthy v"
  by (cases v) simp_all



section \<open>The quiz validator\<close>




subsection \<open>Telling the Issues of a question apart\<close>




















subsection \<open>Claims C9 and C4\<close>







section \<open>The cross-reference\<close>

lemma new_Set_aux: "set (foldl Set_add S xs) = set S \<union> set xs \<and> (distinct S \<longrightarrow> distinct (foldl Set_add S xs))"
  by (induction xs arbitrary: S) (auto simp: Set_add_def)

lemma set_new_Set: "set (new_Set xs) = set xs"
  by (simp add: new_Set_def new_Set_aux)

lemma distinct_new_Set: "distinct (new_Set xs)"
  using new_Set_aux [of "[]" xs] by (simp add: new_Set_def)

lemma fold_missing:
  "fold (\<lambda>ref (out, crossIssues).
           if ref \<notin> A then (out @ [F ref], crossIssues + 1) else (out, crossIssues)) xs (out0, n0)
   = (out0 @ map F (filter (\<lambda>k. k \<notin> A) xs), n0 + length (filter (\<lambda>k. k \<notin> A) xs))"
  by (induction xs arbitrary: out0 n0) simp_all

lemma crossReferenceChapters_eq:
  "crossReferenceChapters ns tsRefs actualFiles =
     (map MISSING_FILE (filter (\<lambda>k. k \<notin> set (map actualKey actualFiles)) (new_Set (map (tsKey ns) tsRefs)))
      @ map ORPHAN_FILE (filter (\<lambda>k. k \<notin> set (map (tsKey ns) tsRefs)) (new_Set (map actualKey actualFiles))),
      length (filter (\<lambda>k. k \<notin> set (map actualKey actualFiles)) (new_Set (map (tsKey ns) tsRefs)))
      + length (filter (\<lambda>k. k \<notin> set (map (tsKey ns) tsRefs)) (new_Set (map actualKey actualFiles))))"
  unfolding crossReferenceChapters_def Let_def
  by (simp only: fold_missing set_new_Set) simp

lemma crossIssues_length:
  "snd (crossReferenceChapters ns tsRefs actualFiles) = length (fst (crossReferenceChapters ns tsRefs actualFiles))"
  by (simp add: crossReferenceChapters_eq)

lemma crossReferenceChapters_findings:
  "(case crossReferenceChapters ns tsRefs actualFiles of (out, crossIssues) \<Rightarrow>
      {k. MISSING_FILE k \<in> set out} = tsKey ns ` set tsRefs - actualKey ` set actualFiles
    \<and> {k. ORPHAN_FILE k \<in> set out} = actualKey ` set actualFiles - tsKey ns ` set tsRefs
    \<and> distinct out
    \<and> crossIssues = length out
    \<and> crossIssues = card (tsKey ns ` set tsRefs - actualKey ` set actualFiles)
                    + card (actualKey ` set actualFiles - tsKey ns ` set tsRefs)
    \<and> (crossIssues = 0 \<longleftrightarrow> tsKey ns ` set tsRefs = actualKey ` set actualFiles))"
proof -
  let ?ts = "map (tsKey ns) tsRefs"
  let ?ac = "map actualKey actualFiles"
  let ?m = "filter (\<lambda>k. k \<notin> set ?ac) (new_Set ?ts)"
  let ?o = "filter (\<lambda>k. k \<notin> set ?ts) (new_Set ?ac)"
  have eq: "crossReferenceChapters ns tsRefs actualFiles =
      (map MISSING_FILE ?m @ map ORPHAN_FILE ?o, length ?m + length ?o)"
    by (rule crossReferenceChapters_eq)
  have sm: "set ?m = tsKey ns ` set tsRefs - actualKey ` set actualFiles"
    by (auto simp: set_new_Set)
  have so: "set ?o = actualKey ` set actualFiles - tsKey ns ` set tsRefs"
    by (auto simp: set_new_Set)
  have dm: "distinct ?m" and do: "distinct ?o"
    by (simp_all add: distinct_new_Set)
  have m1: "{k. MISSING_FILE k \<in> set (map MISSING_FILE ?m @ map ORPHAN_FILE ?o)} = set ?m"
    by auto
  have o1: "{k. ORPHAN_FILE k \<in> set (map MISSING_FILE ?m @ map ORPHAN_FILE ?o)} = set ?o"
    by auto
  have d: "distinct (map MISSING_FILE ?m @ map ORPHAN_FILE ?o)"
    using dm do by (auto simp: distinct_map inj_on_def)
  have cm: "length ?m = card (tsKey ns ` set tsRefs - actualKey ` set actualFiles)"
    using distinct_card [OF dm] sm by simp
  have co: "length ?o = card (actualKey ` set actualFiles - tsKey ns ` set tsRefs)"
    using distinct_card [OF do] so by simp
  have z: "(length ?m + length ?o = 0) \<longleftrightarrow> tsKey ns ` set tsRefs = actualKey ` set actualFiles"
  proof -
    have "(length ?m + length ?o = 0) \<longleftrightarrow> set ?m = {} \<and> set ?o = {}"
      by (simp only: add_is_0 length_0_conv set_empty)
    also have "\<dots> \<longleftrightarrow> tsKey ns ` set tsRefs = actualKey ` set actualFiles"
      unfolding sm so by blast
    finally show ?thesis .
  qed
  show ?thesis
    unfolding eq prod.case
    using m1 o1 d cm co z sm so by (simp only: length_append length_map) 
qed

subsection \<open>Keys and pairs\<close>

lemma numToString_nat: "n < 2 ^ 53 \<Longrightarrow> numToString ns (of_nat n) = show_nat n"
proof -
  assume a: "n < 2 ^ 53"
  have "(of_nat n :: rat) < of_nat (2 ^ 53)" using a by (simp only: of_nat_less_iff)
  then have "\<bar>of_nat n :: rat\<bar> < 2 ^ 53" by simp
  then show ?thesis by (simp add: numToString_def show_int_def)
qed

lemma tsKey_pairKey: "chapterId r < 2 ^ 53 \<Longrightarrow> tsKey ns r = pairKey (manifestPair r)"
  by (simp add: tsKey_def pairKey_def manifestPair_def numToString_nat)

lemma actualKey_parts: "actualKey f = chapterDir f @ ''/'' @ unitName f"
  by (simp add: actualKey_def chapterDir_def unitName_def Let_def)

lemma actualKey_pairKey: "canonical f \<Longrightarrow> actualKey f = pairKey (diskPair f)"
proof -
  assume c: "canonical f"
  have "chapterDir f = ''ch'' @ show_nat (fst (diskPair f))"
    using c by (simp only: canonical_def)
  then have "chapterDir f @ ''/'' @ unitName f
      = (''ch'' @ show_nat (fst (diskPair f))) @ ''/'' @ unitName f"
    by (rule arg_cong)
  then show ?thesis
    unfolding actualKey_parts pairKey_def by (simp add: diskPair_def)
qed

lemma pairKey_inject: "pairKey p = pairKey p' \<longleftrightarrow> p = p'"
proof
  assume "pairKey p = pairKey p'"
  then have e: "show_nat (fst p) @ CHR ''/'' # snd p = show_nat (fst p') @ CHR ''/'' # snd p'"
    by (simp add: pairKey_def)
  have n: "CHR ''/'' \<notin> set (show_nat (fst p))" "CHR ''/'' \<notin> set (show_nat (fst p'))"
    by (rule show_nat_no_char, simp)+
  have "show_nat (fst p) = show_nat (fst p') \<and> snd p = snd p'"
    by (rule split_at_char [OF n e])
  then have "fst p = fst p' \<and> snd p = snd p'"
    using show_nat_inj by blast
  then show "p = p'" by (simp add: prod_eq_iff)
qed simp

lemma inj_pairKey: "inj pairKey"
  by (rule injI) (simp add: pairKey_inject)

lemma digit_value: "m < 10 \<Longrightarrow> of_char (digit m) - 48 = m"
  by simp

lemma parse_digits_show_nat: "parse_digits (show_nat n) = n"
proof (induction n rule: show_nat.induct)
  case (1 n)
  show ?case
  proof (cases "n < 10")
    case True
    then show ?thesis
      using digit_value [of n] by (simp add: show_nat_unfold parse_digits_def del: digit.simps)
  next
    case False
    have m: "n mod 10 < 10" by simp
    have "parse_digits (show_nat n) = 10 * parse_digits (show_nat (n div 10)) + n mod 10"
      using False digit_value [OF m]
      by (simp add: show_nat_unfold parse_digits_def del: digit.simps)
    then show ?thesis using 1 False by simp
  qed
qed

lemma canonical_named: "chapterDir f = ''ch'' @ show_nat n \<Longrightarrow> canonical f \<and> diskPair f = (n, unitName f)"
  by (simp add: canonical_def diskPair_def parse_digits_show_nat)

lemma crossReferenceChapters_pairs:
  assumes "\<forall>r \<in> set tsRefs. chapterId r < 2 ^ 53" "\<forall>f \<in> set actualFiles. canonical f"
  shows "(case crossReferenceChapters ns tsRefs actualFiles of (out, crossIssues) \<Rightarrow>
      set out =
        MISSING_FILE ` pairKey ` (manifestPair ` set tsRefs - diskPair ` set actualFiles)
        \<union> ORPHAN_FILE ` pairKey ` (diskPair ` set actualFiles - manifestPair ` set tsRefs)
    \<and> distinct out
    \<and> crossIssues = card (manifestPair ` set tsRefs - diskPair ` set actualFiles)
                    + card (diskPair ` set actualFiles - manifestPair ` set tsRefs)
    \<and> (crossIssues = 0 \<longleftrightarrow> manifestPair ` set tsRefs = diskPair ` set actualFiles))"
proof -
  let ?M = "manifestPair ` set tsRefs"
  let ?D = "diskPair ` set actualFiles"
  have ts: "tsKey ns ` set tsRefs = pairKey ` ?M"
    using assms(1) by (force simp add: tsKey_pairKey image_iff)
  have ac: "actualKey ` set actualFiles = pairKey ` ?D"
    using assms(2) by (force simp add: actualKey_pairKey image_iff)
  have d1: "pairKey ` ?M - pairKey ` ?D = pairKey ` (?M - ?D)"
    by (rule image_set_diff [OF inj_pairKey, symmetric])
  have d2: "pairKey ` ?D - pairKey ` ?M = pairKey ` (?D - ?M)"
    by (rule image_set_diff [OF inj_pairKey, symmetric])
  have c1: "card (pairKey ` (?M - ?D)) = card (?M - ?D)"
    by (rule card_image) (rule inj_on_subset [OF inj_pairKey], simp)
  have c2: "card (pairKey ` (?D - ?M)) = card (?D - ?M)"
    by (rule card_image) (rule inj_on_subset [OF inj_pairKey], simp)
  have e: "pairKey ` ?M = pairKey ` ?D \<longleftrightarrow> ?M = ?D"
    by (rule inj_image_eq_iff [OF inj_pairKey])
  obtain out n where r: "crossReferenceChapters ns tsRefs actualFiles = (out, n)"
    by (cases "crossReferenceChapters ns tsRefs actualFiles")
  note k = crossReferenceChapters_findings [of ns tsRefs actualFiles, unfolded r prod.case ts ac d1 d2 c1 c2 e]
  have m: "{k. MISSING_FILE k \<in> set out} = pairKey ` (?M - ?D)"
    and o: "{k. ORPHAN_FILE k \<in> set out} = pairKey ` (?D - ?M)"
    and rest: "distinct out" "n = card (?M - ?D) + card (?D - ?M)" "n = 0 \<longleftrightarrow> ?M = ?D"
    using k by blast+
  have "set out = MISSING_FILE ` {k. MISSING_FILE k \<in> set out} \<union> ORPHAN_FILE ` {k. ORPHAN_FILE k \<in> set out}"
  proof (rule set_eqI)
    fix x
    show "x \<in> set out \<longleftrightarrow>
      x \<in> MISSING_FILE ` {k. MISSING_FILE k \<in> set out} \<union> ORPHAN_FILE ` {k. ORPHAN_FILE k \<in> set out}"
      by (cases x) auto
  qed
  then have s: "set out = MISSING_FILE ` pairKey ` (?M - ?D) \<union> ORPHAN_FILE ` pairKey ` (?D - ?M)"
    unfolding m o .
  show ?thesis
    unfolding r prod.case using s rest by blast
qed

text \<open>
  Claim C3, as amended. The cross-referencer compares keys: \<open>tsKey\<close> writes a reference
  of the manifest as \<open>ch<N>/<unitId>\<close>, \<open>actualKey\<close> a unit file as
  \<open><directory>/<unit>\<close>. It prints one \<open>MISSING FILE\<close> finding for every key of the
  manifest that no file has, one \<open>ORPHAN FILE\<close> finding for every key of a file that
  the manifest lacks, no finding twice, and counts them; the count is zero exactly when
  the two sets of keys are equal. When every chapter number of the manifest is below
  \<open>2^53\<close> and every file is in a directory named \<open>ch\<close> followed by the decimal digits
  of its chapter number without leading zeros, keys and (chapterId, unitId) pairs
  correspond one to one, and all of this holds of the pairs: the findings are exactly
  the pairs of the manifest that the disk lacks and the pairs of the disk that the
  manifest lacks, and there is no finding exactly when the two sets of pairs are equal.
  Findings and count are given by the sets, so the order of the pairs does not matter.
\<close>

theorem crossReference_findings:
  "(case crossReferenceChapters ns tsRefs actualFiles of (out, crossIssues) \<Rightarrow>
      {k. MISSING_FILE k \<in> set out} = tsKey ns ` set tsRefs - actualKey ` set actualFiles
    \<and> {k. ORPHAN_FILE k \<in> set out} = actualKey ` set actualFiles - tsKey ns ` set tsRefs
    \<and> distinct out
    \<and> crossIssues = length out
    \<and> crossIssues = card (tsKey ns ` set tsRefs - actualKey ` set actualFiles)
                    + card (actualKey ` set actualFiles - tsKey ns ` set tsRefs)
    \<and> (crossIssues = 0 \<longleftrightarrow> tsKey ns ` set tsRefs = actualKey ` set actualFiles))
   \<and> ((\<forall>r \<in> set tsRefs. chapterId r < 2 ^ 53) \<and> (\<forall>f \<in> set actualFiles. canonical f) \<longrightarrow>
       (case crossReferenceChapters ns tsRefs actualFiles of (out, crossIssues) \<Rightarrow>
          set out =
            MISSING_FILE ` pairKey ` (manifestPair ` set tsRefs - diskPair ` set actualFiles)
            \<union> ORPHAN_FILE ` pairKey ` (diskPair ` set actualFiles - manifestPair ` set tsRefs)
        \<and> distinct out
        \<and> crossIssues = card (manifestPair ` set tsRefs - diskPair ` set actualFiles)
                        + card (diskPair ` set actualFiles - manifestPair ` set tsRefs)
        \<and> (crossIssues = 0 \<longleftrightarrow> manifestPair ` set tsRefs = diskPair ` set actualFiles)))
   \<and> (pairKey p = pairKey p' \<longleftrightarrow> p = p')
   \<and> (chapterDir f = ''ch'' @ show_nat n \<longrightarrow> canonical f \<and> diskPair f = (n, unitName f))"
proof -
  note a = crossReferenceChapters_findings [of ns tsRefs actualFiles]
  have b: "(\<forall>r \<in> set tsRefs. chapterId r < 2 ^ 53) \<and> (\<forall>f \<in> set actualFiles. canonical f) \<longrightarrow>
       (case crossReferenceChapters ns tsRefs actualFiles of (out, crossIssues) \<Rightarrow>
          set out =
            MISSING_FILE ` pairKey ` (manifestPair ` set tsRefs - diskPair ` set actualFiles)
            \<union> ORPHAN_FILE ` pairKey ` (diskPair ` set actualFiles - manifestPair ` set tsRefs)
        \<and> distinct out
        \<and> crossIssues = card (manifestPair ` set tsRefs - diskPair ` set actualFiles)
                        + card (diskPair ` set actualFiles - manifestPair ` set tsRefs)
        \<and> (crossIssues = 0 \<longleftrightarrow> manifestPair ` set tsRefs = diskPair ` set actualFiles))"
  proof
    assume h: "(\<forall>r \<in> set tsRefs. chapterId r < 2 ^ 53) \<and> (\<forall>f \<in> set actualFiles. canonical f)"
    show "(case crossReferenceChapters ns tsRefs actualFiles of (out, crossIssues) \<Rightarrow>
          set out =
            MISSING_FILE ` pairKey ` (manifestPair ` set tsRefs - diskPair ` set actualFiles)
            \<union> ORPHAN_FILE ` pairKey ` (diskPair ` set actualFiles - manifestPair ` set tsRefs)
        \<and> distinct out
        \<and> crossIssues = card (manifestPair ` set tsRefs - diskPair ` set actualFiles)
                        + card (diskPair ` set actualFiles - manifestPair ` set tsRefs)
        \<and> (crossIssues = 0 \<longleftrightarrow> manifestPair ` set tsRefs = diskPair ` set actualFiles))"
      by (rule crossReferenceChapters_pairs [OF conjunct1 [OF h] conjunct2 [OF h]])
  qed
  note c = pairKey_inject [of p p']
  have d: "chapterDir f = ''ch'' @ show_nat n \<longrightarrow> canonical f \<and> diskPair f = (n, unitName f)"
    by (rule impI) (rule canonical_named)
  show ?thesis
    by (rule conjI [OF a conjI [OF b conjI [OF c d]]])
qed

theorem crossReference_findings_witness:
  "crossReferenceChapters (\<lambda>q. [])
     [\<lparr>chapterId = 3, unitId = ''unit2''\<rparr>, \<lparr>chapterId = 2, unitId = ''unit1''\<rparr>]
     [''/repo/src/data/ch2/unit1.json'', ''/repo/src/data/ch3/unit9.json'']
   = ([MISSING_FILE ''ch3/unit2'', ORPHAN_FILE ''ch3/unit9''], 2)
   \<and> card (manifestPair ` set [\<lparr>chapterId = 3, unitId = ''unit2''\<rparr>, \<lparr>chapterId = 2, unitId = ''unit1''\<rparr>]
           - diskPair ` set [''/repo/src/data/ch2/unit1.json'', ''/repo/src/data/ch3/unit9.json''])
     + card (diskPair ` set [''/repo/src/data/ch2/unit1.json'', ''/repo/src/data/ch3/unit9.json'']
           - manifestPair ` set [\<lparr>chapterId = 3, unitId = ''unit2''\<rparr>, \<lparr>chapterId = 2, unitId = ''unit1''\<rparr>])
     = 2"
proof -
  let ?refs = "[\<lparr>chapterId = 3, unitId = ''unit2''\<rparr>, \<lparr>chapterId = 2, unitId = ''unit1''\<rparr>]"
  let ?files = "[''/repo/src/data/ch2/unit1.json'', ''/repo/src/data/ch3/unit9.json'']"
  have c: "crossReferenceChapters (\<lambda>q. []) ?refs ?files
      = ([MISSING_FILE ''ch3/unit2'', ORPHAN_FILE ''ch3/unit9''], 2)"
    by code_simp
  have h1: "\<forall>r \<in> set ?refs. chapterId r < 2 ^ 53" by simp
  have h2: "\<forall>f \<in> set ?files. canonical f"
  proof -
    have "list_all canonical ?files" by code_simp
    then show ?thesis by (simp only: list_all_iff)
  qed
  note T = crossReference_findings
    [where ns = "\<lambda>q. []" and tsRefs = ?refs and actualFiles = ?files]
  note P = mp [OF conjunct1 [OF conjunct2 [OF T]] conjI [OF h1 h2]]
  note Q = P [unfolded c prod.case]
  note R = Q [THEN conjunct2, THEN conjunct2, THEN conjunct1]
  show ?thesis
    by (rule conjI [OF c R [symmetric]])
qed

text \<open>
  The claim as stated fails, because keys are compared as strings. The manifest
  references unit \<open>unit1\<close> of chapter 1 and the disk holds \<open>ch01/unit1.json\<close>: the file
  is unit \<open>unit1\<close> of chapter 1, so the two sets of (chapterId, unitId) pairs are equal,
  and yet the cross-referencer prints one missing-file and one orphan-file finding.
\<close>

theorem chapter_directory_leading_zero_counterexample:
  "manifestPair ` set [\<lparr>chapterId = 1, unitId = ''unit1''\<rparr>]
     = diskPair ` set [''/repo/src/data/ch01/unit1.json'']
   \<and> crossReferenceChapters (\<lambda>q. []) [\<lparr>chapterId = 1, unitId = ''unit1''\<rparr>]
        [''/repo/src/data/ch01/unit1.json'']
     = ([MISSING_FILE ''ch1/unit1'', ORPHAN_FILE ''ch01/unit1''], 2)"
proof -
  have d: "diskPair ''/repo/src/data/ch01/unit1.json'' = (1, ''unit1'')" by code_simp
  have m: "manifestPair \<lparr>chapterId = 1, unitId = ''unit1''\<rparr> = (1, ''unit1'')"
    by (simp add: manifestPair_def)
  have c: "crossReferenceChapters (\<lambda>q. []) [\<lparr>chapterId = 1, unitId = ''unit1''\<rparr>]
        [''/repo/src/data/ch01/unit1.json'']
     = ([MISSING_FILE ''ch1/unit1'', ORPHAN_FILE ''ch01/unit1''], 2)"
    by code_simp
  show ?thesis
    unfolding c by (simp only: list.set image_insert image_empty d m simp_thms)
qed

section \<open>The verdict\<close>

text \<open>
  Claim C2. The final verdict is FAIL, with the total, if and only if the number of
  recorded Issues plus the number of cross-reference findings is greater than zero, and
  PASS otherwise; in a run that completes, the verdict is PASS exactly when no Issue
  was recorded and no finding printed.
\<close>

theorem verdict_fail_iff_any_problem:
  "finalVerdict iss crossIssues =
     (if 0 < length iss + crossIssues then FAIL (length iss + crossIssues) else PASS)
   \<and> (case runAudit ns unitFiles tsRefs of
        None \<Rightarrow> True
      | Some (s, out, v) \<Rightarrow>
          v = (if issues s = [] \<and> out = [] then PASS else FAIL (length (issues s) + length out)))"
proof -
  have a: "finalVerdict iss crossIssues =
     (if 0 < length iss + crossIssues then FAIL (length iss + crossIssues) else PASS)" for iss crossIssues
    by (simp add: finalVerdict_def Let_def)
  have b: "(case runAudit ns unitFiles tsRefs of
        None \<Rightarrow> True
      | Some (s, out, v) \<Rightarrow>
          v = (if issues s = [] \<and> out = [] then PASS else FAIL (length (issues s) + length out)))"
  proof (cases "forOf (\<lambda>f. auditUnit ns (relPath f) (content f)) unitFiles initial_state")
    case None
    then show ?thesis by (simp add: runAudit_def)
  next
    case (Some s)
    obtain out n where c: "crossReferenceChapters ns tsRefs (map absPath unitFiles) = (out, n)"
      by (cases "crossReferenceChapters ns tsRefs (map absPath unitFiles)")
    have n: "n = length out"
      using crossIssues_length [of ns tsRefs "map absPath unitFiles"] c by simp
    show ?thesis
      using Some c n by (simp add: runAudit_def a)
  qed
  show ?thesis using a b by blast
qed

section \<open>The general fields and the sections guard\<close>






section \<open>The empty-string scan of a unit\<close>

text \<open>
  Claim C6 at a failing input. The scan keeps the paths that start with
  \<open>root.sections\<close>. The path of a top-level field whose name merely starts with
  \<open>sections\<close> does so too: in a unit that is otherwise in order, the empty string of
  the top-level field \<open>sectionsNote\<close>, outside the \<open>sections\<close> subtree, is reported.
\<close>

theorem empty_string_beside_sections_reported:
  \<open>auditUnit (\<lambda>q. []) ''ch1/unit1.json''
     (Inr (JObj [(''title'', JStr ''T''), (''intro'', JStr ''I''), (''estimatedTime'', JStr ''10''),
        (''sectionsNote'', JStr ''''),
        (''sections'', JArr [
          JObj [(''type'', JStr ''vocab''), (''title'', JStr ''V''),
            (''items'', JArr [JObj [(''japanese'', JStr ''neko''), (''reading'', JStr ''neko''),
               (''romaji'', JStr ''neko''), (''chinese'', JStr ''mao''), (''example'', JStr ''ex''),
               (''exampleChinese'', JStr ''exc'')]])],
          JObj [(''type'', JStr ''dialogue''), (''title'', JStr ''D''), (''scene'', JStr ''park''),
            (''lines'', JArr [JObj [(''speaker'', JStr ''A''), (''japanese'', JStr ''hai''),
               (''chinese'', JStr ''shi'')]])],
          JObj [(''type'', JStr ''grammar''), (''title'', JStr ''G''),
            (''points'', JArr [JObj [(''pattern'', JStr ''p''), (''meaning'', JStr ''m''),
               (''structure'', JStr ''s''),
               (''examples'', JArr [JObj [(''japanese'', JStr ''j''), (''chinese'', JStr ''c'')]])]])],
          JObj [(''type'', JStr ''flashcards''), (''title'', JStr ''F''),
            (''cards'', JArr [JObj [(''japanese'', JStr ''neko''), (''reading'', JStr ''neko''),
               (''romaji'', JStr ''neko''), (''chinese'', JStr ''mao'')]])],
          JObj [(''type'', JStr ''quiz''), (''title'', JStr ''Q''),
            (''questions'', JArr [JObj [(''question'', JStr ''q?''),
               (''options'', JArr [JStr ''a'', JStr ''b'', JStr ''c'', JStr ''d'']),
               (''correct'', JNum 2), (''explanation'', JStr ''e'')]])]])]))
     initial_state =
   Some \<lparr>issues =
           [\<lparr>file = ''ch1/unit1.json'', sectionType = ''empty-string'',
              problem = ''Empty string at root.sectionsNote''\<rparr>],
         totalUnitsChecked = 1, totalSectionsChecked = 5\<rparr>\<close>
  by code_simp

theorem empty_string_beside_sections_reported_witness:
  \<open>map_option (map sectionType \<circ> issues) (auditUnit (\<lambda>q. []) ''ch1/unit1.json''
     (Inr (JObj [(''title'', JStr ''T''), (''intro'', JStr ''I''), (''estimatedTime'', JStr ''10''),
        (''sectionsNote'', JStr ''''),
        (''sections'', JArr [
          JObj [(''type'', JStr ''vocab''), (''title'', JStr ''V''),
            (''items'', JArr [JObj [(''japanese'', JStr ''neko''), (''reading'', JStr ''neko''),
               (''romaji'', JStr ''neko''), (''chinese'', JStr ''mao''), (''example'', JStr ''ex''),
               (''exampleChinese'', JStr ''exc'')]])],
          JObj [(''type'', JStr ''dialogue''), (''title'', JStr ''D''), (''scene'', JStr ''park''),
            (''lines'', JArr [JObj [(''speaker'', JStr ''A''), (''japanese'', JStr ''hai''),
               (''chinese'', JStr ''shi'')]])],
          JObj [(''type'', JStr ''grammar''), (''title'', JStr ''G''),
            (''points'', JArr [JObj [(''pattern'', JStr ''p''), (''meaning'', JStr ''m''),
               (''structure'', JStr ''s''),
               (''examples'', JArr [JObj [(''japanese'', JStr ''j''), (''chinese'', JStr ''c'')]])]])],
          JObj [(''type'', JStr ''flashcards''), (''title'', JStr ''F''),
            (''cards'', JArr [JObj [(''japanese'', JStr ''neko''), (''reading'', JStr ''neko''),
               (''romaji'', JStr ''neko''), (''chinese'', JStr ''mao'')]])],
          JObj [(''type'', JStr ''quiz''), (''title'', JStr ''Q''),
            (''questions'', JArr [JObj [(''question'', JStr ''q?''),
               (''options'', JArr [JStr ''a'', JStr ''b'', JStr ''c'', JStr ''d'']),
               (''correct'', JNum 2), (''explanation'', JStr ''e'')]])]])]))
     initial_state) =
   Some [''empty-string'']\<close>
  using empty_string_beside_sections_reported by simp

section \<open>The flashcards validator\<close>

















subsection \<open>Telling the Issues of the cards apart\<close>







lemma checkFlashcards_dups_repeats:
  assumes "map (toStr ns) fs = map Some ks"
    and "set ks \<inter> set Object_prototype_keys = {}"
    and "set seen \<inter> set Object_prototype_keys = {}"
  shows "checkFlashcards_dups ns prefix filePath fs seen s =
     Some (s\<lparr>issues := issues s @ map (duplicate_issue filePath prefix) (repeats_from seen ks)\<rparr>)"
  using assms
proof (induction fs arbitrary: ks seen s)
  case Nil
  then show ?case by simp
next
  case (Cons f fs)
  then obtain k ks' where ks: "ks = k # ks'" and k: "toStr ns f = Some k"
    and rest: "map (toStr ns) fs = map Some ks'"
    by (cases ks) auto
  have kp: "k \<notin> set Object_prototype_keys" and ks'p: "set ks' \<inter> set Object_prototype_keys = {}"
    using Cons.prems(2) ks by auto
  have "''__proto__'' \<in> set Object_prototype_keys"
    by (simp add: Object_prototype_keys_def)
  then have knp: "k \<noteq> ''__proto__''" using kp by auto
  have seen': "set (seen_set seen k) \<inter> set Object_prototype_keys = {}"
    using Cons.prems(3) kp knp by (simp add: seen_set_def)
  have sg: "seen_get seen k \<longleftrightarrow> k \<in> set seen"
    using kp by (simp add: seen_get_def)
  have ss: "seen_set seen k = k # seen"
    using knp by (simp add: seen_set_def)
  show ?case
    using Cons.IH [OF rest ks'p seen'] k sg ss
    by (simp add: ks addIssue_def duplicate_issue_def)
qed

subsection \<open>Claims C5 and C10\<close>







section \<open>A unit in order gets no Issue\<close>

lemma is_strE: "is_str v \<Longrightarrow> \<exists>s. v = JStr s"
  by (cases v) simp_all

lemma nonempty_strE: "nonempty_str v \<Longrightarrow> \<exists>s. v = JStr s \<and> s \<noteq> []"
  by (cases v) simp_all

lemma is_str_not_nullish: "is_str v \<Longrightarrow> \<not> nullish v"
  by (cases v) (simp_all add: nullish_def)

lemma field_nullish: "nullish v \<Longrightarrow> field v k = JUndefined"
  by (cases v) (simp_all add: nullish_def)

lemma is_str_field_obj: "is_str (field v k) \<Longrightarrow> \<not> nullish v"
  using field_nullish [of v k] by (cases "nullish v") auto

lemma forEach_same:
  "(\<And>x i s. x \<in> set xs \<Longrightarrow> body x i s = Some s) \<Longrightarrow> forEach body xs i s = Some s"
  by (induction xs arbitrary: i) simp_all

lemma prefixOf_str:
  "is_str (field sec ''title'') \<Longrightarrow> \<exists>p. prefixOf ns kind sec idx = Some p"
  by (auto simp add: prefixOf_def jor_def dest!: is_strE)

subsection \<open>Trees without a given kind of string\<close>

lemma all_strings_items_iff: "all_strings_items P xs \<longleftrightarrow> list_all (all_strings P) xs"
  by (induction xs) simp_all

lemma all_strings_entries_iff:
  "all_strings_entries P kvs \<longleftrightarrow> list_all (\<lambda>kv. all_strings P (snd kv)) kvs"
  by (induction kvs) auto

lemma all_strings_field: "all_strings P v \<Longrightarrow> all_strings P (field v k)"
proof (cases v)
  case (JObj kvs)
  assume a: "all_strings P v"
  show ?thesis
  proof (cases "map_of kvs k")
    case None
    then show ?thesis using JObj by simp
  next
    case (Some x)
    then have "(k, x) \<in> set kvs" by (rule map_of_SomeD)
    then have "all_strings P x"
      using a JObj by (auto simp add: all_strings_entries_iff list_all_iff)
    then show ?thesis using JObj Some by simp
  qed
qed simp_all

lemma all_strings_elems: "all_strings P v \<Longrightarrow> x \<in> set (elems v) \<Longrightarrow> all_strings P x"
  by (cases v) (auto simp add: all_strings_items_iff list_all_iff)

lemma all_strings_field_str: "all_strings P v \<Longrightarrow> field v k = JStr s \<Longrightarrow> P s"
  using all_strings_field [of P v k] by simp

lemma findEmptyStrings_none:
  fixes d1 d2 d3 :: "string list"
  shows "all_strings (\<lambda>s. s \<noteq> []) obj \<longrightarrow> (\<forall>rs. findEmptyStrings obj p rs = rs)"
  and "all_strings_items (\<lambda>s. s \<noteq> []) xs \<longrightarrow> (\<forall>rs. findEmptyStrings_items xs i p2 rs = rs)"
  and "all_strings_entries (\<lambda>s. s \<noteq> []) kvs \<longrightarrow> (\<forall>rs. findEmptyStrings_entries kvs p3 rs = rs)"
  by (induction obj p d1 and xs i p2 d2 and kvs p3 d3
      rule: findEmptyStrings_findEmptyStrings_items_findEmptyStrings_entries.induct) simp_all

lemma findForbiddenNames_none:
  fixes d1 d2 d3 :: "forbidden_match list"
  shows "all_strings (\<lambda>s. \<not> includes_str s forbidden1 \<and> \<not> includes_str s forbidden2) obj
      \<longrightarrow> (\<forall>rs. findForbiddenNames obj p rs = rs)"
  and "all_strings_items (\<lambda>s. \<not> includes_str s forbidden1 \<and> \<not> includes_str s forbidden2) xs
      \<longrightarrow> (\<forall>rs. findForbiddenNames_items xs i p2 rs = rs)"
  and "all_strings_entries (\<lambda>s. \<not> includes_str s forbidden1 \<and> \<not> includes_str s forbidden2) kvs
      \<longrightarrow> (\<forall>rs. findForbiddenNames_entries kvs p3 rs = rs)"
  by (induction obj p d1 and xs i p2 d2 and kvs p3 d3
      rule: findForbiddenNames_findForbiddenNames_items_findForbiddenNames_entries.induct) simp_all

subsection \<open>The paths of the empty strings\<close>

text \<open>
  Every path that a scan from the path \<open>p\<close> finds is \<open>p\<close> itself or \<open>p\<close> followed
  by \<open>.\<close> or \<open>[\<close> and more.
\<close>

lemma findEmptyStrings_paths:
  fixes d1 d2 d3 :: "string list"
  shows "\<forall>rs. \<forall>x \<in> set (findEmptyStrings obj p rs). x \<in> set rs
      \<or> (\<exists>r. x = p @ r \<and> (r = [] \<or> hd r = CHR ''.'' \<or> hd r = CHR ''[''))"
  and "\<forall>rs. \<forall>x \<in> set (findEmptyStrings_items xs i p2 rs). x \<in> set rs
      \<or> (\<exists>r. x = p2 @ r \<and> (r = [] \<or> hd r = CHR ''.'' \<or> hd r = CHR ''[''))"
  and "\<forall>rs. \<forall>x \<in> set (findEmptyStrings_entries kvs p3 rs). x \<in> set rs
      \<or> (\<exists>r. x = p3 @ r \<and> (r = [] \<or> hd r = CHR ''.'' \<or> hd r = CHR ''[''))"
proof (induction obj p d1 and xs i p2 d2 and kvs p3 d3
    rule: findEmptyStrings_findEmptyStrings_items_findEmptyStrings_entries.induct)
  case (9 item rest i currentPath results)
  show ?case
  proof (intro allI ballI)
    fix rs x
    let ?q = "currentPath @ ''['' @ show_nat i @ '']''"
    assume "x \<in> set (findEmptyStrings_items (item # rest) i currentPath rs)"
    then have "x \<in> set (findEmptyStrings_items rest (Suc i) currentPath (findEmptyStrings item ?q rs))"
      by simp
    then consider (a) "x \<in> set (findEmptyStrings item ?q rs)"
      | (b) "\<exists>r. x = currentPath @ r \<and> (r = [] \<or> hd r = CHR ''.'' \<or> hd r = CHR ''['')"
      using "9.IH"(2) by blast
    then show "x \<in> set rs
      \<or> (\<exists>r. x = currentPath @ r \<and> (r = [] \<or> hd r = CHR ''.'' \<or> hd r = CHR ''[''))"
    proof cases
      case a
      then consider (c) "x \<in> set rs" | (d) "\<exists>r. x = ?q @ r"
        using "9.IH"(1) by blast
      then show ?thesis
      proof cases
        case c
        then show ?thesis by simp
      next
        case d
        then obtain r where "x = ?q @ r" by blast
        then have "x = currentPath @ (''['' @ show_nat i @ '']'' @ r) \<and> hd (''['' @ show_nat i @ '']'' @ r) = CHR ''[''"
          by simp
        then show ?thesis by blast
      qed
    next
      case b
      then show ?thesis by simp
    qed
  qed
next
  case (11 key val rest currentPath results)
  show ?case
  proof (intro allI ballI)
    fix rs x
    let ?q = "currentPath @ ''.'' @ key"
    assume "x \<in> set (findEmptyStrings_entries ((key, val) # rest) currentPath rs)"
    then have "x \<in> set (findEmptyStrings_entries rest currentPath (findEmptyStrings val ?q rs))"
      by simp
    then consider (a) "x \<in> set (findEmptyStrings val ?q rs)"
      | (b) "\<exists>r. x = currentPath @ r \<and> (r = [] \<or> hd r = CHR ''.'' \<or> hd r = CHR ''['')"
      using "11.IH"(2) by blast
    then show "x \<in> set rs
      \<or> (\<exists>r. x = currentPath @ r \<and> (r = [] \<or> hd r = CHR ''.'' \<or> hd r = CHR ''[''))"
    proof cases
      case a
      then consider (c) "x \<in> set rs" | (d) "\<exists>r. x = ?q @ r"
        using "11.IH"(1) by blast
      then show ?thesis
      proof cases
        case c
        then show ?thesis by simp
      next
        case d
        then obtain r where "x = ?q @ r" by blast
        then have "x = currentPath @ (''.'' @ key @ r) \<and> hd (''.'' @ key @ r) = CHR ''.''"
          by simp
        then show ?thesis by blast
      qed
    next
      case b
      then show ?thesis by simp
    qed
  qed
qed auto

lemma not_startsWith_append:
  assumes "\<not> startsWith k s" "r = [] \<or> hd r \<notin> set s"
  shows "\<not> startsWith (k @ r) s"
proof
  assume "startsWith (k @ r) s"
  then have t: "take (length s) (k @ r) = s" by (simp add: startsWith_def)
  show False
  proof (cases "length s \<le> length k")
    case True
    then have "take (length s) k = s" using t by simp
    then show False using assms(1) by (simp add: startsWith_def)
  next
    case False
    then have l: "length k < length s" by simp
    have rn: "r \<noteq> []"
    proof
      assume "r = []"
      then have "take (length s) k = s" using t by simp
      then have "length (take (length s) k) = length s" by (rule arg_cong)
      then have "length s \<le> length k" by simp
      then show False using l by simp
    qed
    have "s ! length k = take (length s) (k @ r) ! length k" using t by simp
    also have "\<dots> = (k @ r) ! length k" by (rule nth_take [OF l])
    also have "\<dots> = hd r" using rn by (simp add: nth_append hd_conv_nth)
    finally have "hd r = s ! length k" by simp
    then have "hd r \<in> set s" using l by simp
    then show False using assms(2) rn by simp
  qed
qed

lemma top_level_paths:
  assumes "list_all (\<lambda>kv. all_strings (\<lambda>s. s \<noteq> []) (snd kv))
     (filter (\<lambda>kv. startsWith (fst kv) ''sections'') kvs)"
  shows "filter (\<lambda>p. startsWith p ''root.sections'') (findEmptyStrings_entries kvs ''root'' []) = []"
  using assms
proof (induction kvs)
  case Nil
  then show ?case by simp
next
  case (Cons kv kvs)
  obtain k v where kv: "kv = (k, v)" by (cases kv)
  let ?q = "''root'' @ ''.'' @ k"
  have p: "list_all (\<lambda>kv. all_strings (\<lambda>s. s \<noteq> []) (snd kv))
     (filter (\<lambda>kv. startsWith (fst kv) ''sections'') kvs)"
    using Cons.prems by (cases "startsWith (fst kv) ''sections''") simp_all
  have rest: "filter (\<lambda>p. startsWith p ''root.sections'') (findEmptyStrings_entries kvs ''root'' []) = []"
    by (rule Cons.IH [OF p])
  have here: "filter (\<lambda>p. startsWith p ''root.sections'') (findEmptyStrings v ?q []) = []"
  proof (cases "startsWith k ''sections''")
    case True
    then have "all_strings (\<lambda>s. s \<noteq> []) v" using Cons.prems kv by simp
    then have "findEmptyStrings v ?q [] = []"
      using findEmptyStrings_none(1) [of v ?q] by blast
    then show ?thesis by (simp only: filter.simps)
  next
    case False
    have "\<not> startsWith x ''root.sections''" if h: "x \<in> set (findEmptyStrings v ?q [])" for x
    proof -
      have "x \<in> set [] \<or> (\<exists>r. x = ?q @ r \<and> (r = [] \<or> hd r = CHR ''.'' \<or> hd r = CHR ''[''))"
        using findEmptyStrings_paths(1) [of v ?q] h by blast
      then obtain r where r: "x = ?q @ r" "r = [] \<or> hd r = CHR ''.'' \<or> hd r = CHR ''[''"
        by auto
      have "r = [] \<or> hd r \<notin> set ''sections''" using r(2) by auto
      then have n: "\<not> startsWith (k @ r) ''sections''"
        by (rule not_startsWith_append [OF False])
      have x: "x = ''root.'' @ (k @ r)" using r(1) by simp
      have e: "startsWith (''root.'' @ (k @ r)) (''root.'' @ ''sections'') = startsWith (k @ r) ''sections''"
        by (rule startsWith_append_same)
      have "''root.'' @ ''sections'' = ''root.sections''" by simp
      then have "startsWith (''root.'' @ (k @ r)) ''root.sections'' = startsWith (k @ r) ''sections''"
        using e by (simp only:)
      then show ?thesis unfolding x using n by simp
    qed
    then show ?thesis by (simp only: filter_empty_conv) blast
  qed
  have "findEmptyStrings_entries (kv # kvs) ''root'' []
      = findEmptyStrings v ?q [] @ findEmptyStrings_entries kvs ''root'' []"
    unfolding kv findEmptyStrings_entries.simps
    by (rule findEmptyStrings_append(3))
  then show ?case
    using here rest by (simp only: filter_append append_Nil)
qed

subsection \<open>The validators on sections in order\<close>

lemma forOf_same:
  "(\<And>x s. x \<in> set xs \<Longrightarrow> body x s = Some s) \<Longrightarrow> forOf body xs s = Some s"
  by (induction xs) simp_all

lemma checkVocab_item_clean:
  assumes "inv_VocabItem it" "is_str (field it ''example'')" "is_str (field it ''exampleChinese'')"
  shows "checkVocab_item ns prefix filePath it i s = Some s"
proof -
  have n: "\<not> nullish it"
    using assms(1) is_str_field_obj by (auto simp add: inv_VocabItem_def)
  show ?thesis
    using assms n
    by (simp add: checkVocab_item_def inv_VocabItem_def is_str_not_nullish)
qed


lemma checkVocab_clean:
  assumes "is_str (field sec ''title'')" "isArray (field sec ''items'')"
    "elems (field sec ''items'') \<noteq> []"
    "list_all inv_VocabItem (elems (field sec ''items''))"
    "list_all (\<lambda>it. is_str (field it ''example'') \<and> is_str (field it ''exampleChinese''))
       (elems (field sec ''items''))"
  shows "checkVocab ns sec filePath idx s = Some s"
proof -
  obtain p where p: "prefixOf ns ''vocab'' sec idx = Some p"
    using prefixOf_str [OF assms(1)] by blast
  have "forEach (checkVocab_item ns p filePath) (elems (field sec ''items'')) 0 s = Some s"
    using assms(4,5) by (intro forEach_same checkVocab_item_clean) (auto simp add: list_all_iff)
  then show ?thesis
    using p assms(2,3) by (simp add: checkVocab_def isArray_truthy)
qed

lemma checkDialogue_line_clean:
  assumes "inv_DialogueLine l"
  shows "checkDialogue_line prefix filePath l i s = Some s"
proof -
  have n: "\<not> nullish l"
    using assms is_str_field_obj by (auto simp add: inv_DialogueLine_def)
  show ?thesis
    using assms n
    by (simp add: checkDialogue_line_def inv_DialogueLine_def is_str_not_nullish)
qed

lemma checkDialogue_clean:
  assumes "is_str (field sec ''title'')" "nonempty_str (field sec ''scene'')"
    "isArray (field sec ''lines'')" "elems (field sec ''lines'') \<noteq> []"
    "list_all inv_DialogueLine (elems (field sec ''lines''))"
  shows "checkDialogue ns sec filePath idx s = Some s"
proof -
  obtain p where p: "prefixOf ns ''dialogue'' sec idx = Some p"
    using prefixOf_str [OF assms(1)] by blast
  obtain sc where sc: "field sec ''scene'' = JStr sc" "sc \<noteq> []"
    using nonempty_strE [OF assms(2)] by blast
  have "forEach (checkDialogue_line p filePath) (elems (field sec ''lines'')) 0 s = Some s"
    using assms(5) by (intro forEach_same checkDialogue_line_clean) (auto simp add: list_all_iff)
  then show ?thesis
    using p sc assms(3,4) by (simp add: checkDialogue_def isArray_truthy Let_def)
qed

lemma checkGrammar_point_clean:
  assumes "inv_GrammarPoint pt"
  shows "checkGrammar_point ns prefix filePath pt i s = Some s"
proof -
  have n: "\<not> nullish pt"
    using assms is_str_field_obj by (auto simp add: inv_GrammarPoint_def)
  show ?thesis
    using assms n
    by (simp add: checkGrammar_point_def inv_GrammarPoint_def is_str_not_nullish isArray_truthy)
qed

lemma checkGrammar_clean:
  assumes "is_str (field sec ''title'')"
    "isArray (field sec ''points'')" "elems (field sec ''points'') \<noteq> []"
    "list_all inv_GrammarPoint (elems (field sec ''points''))"
  shows "checkGrammar ns sec filePath idx s = Some s"
proof -
  obtain p where p: "prefixOf ns ''grammar'' sec idx = Some p"
    using prefixOf_str [OF assms(1)] by blast
  have "forEach (checkGrammar_point ns p filePath) (elems (field sec ''points'')) 0 s = Some s"
    using assms(4) by (intro forEach_same checkGrammar_point_clean) (auto simp add: list_all_iff)
  then show ?thesis
    using p assms(2,3) by (simp add: checkGrammar_def isArray_truthy)
qed

lemma checkCulture_clean:
  assumes "is_str (field sec ''title'')" "nonempty_str (field sec ''content'')"
  shows "checkCulture ns sec filePath idx s = Some s"
proof -
  obtain p where p: "prefixOf ns ''culture'' sec idx = Some p"
    using prefixOf_str [OF assms(1)] by blast
  obtain c where c: "field sec ''content'' = JStr c" "c \<noteq> []"
    using nonempty_strE [OF assms(2)] by blast
  show ?thesis
    using p c by (simp add: checkCulture_def Let_def)
qed

lemma integer_in_0_3_number: "integer_in_0_3 v \<Longrightarrow> number_in_0_3 v"
  by (auto simp add: integer_in_0_3_def)

lemma checkQuiz_question_clean:
  assumes "inv_QuizQuestion q" "all_strings (\<lambda>s. s \<noteq> []) q"
  shows "checkQuiz_question ns prefix filePath q i s = Some s"
proof -
  have n: "\<not> nullish q"
    using assms(1) is_str_field_obj by (auto simp add: inv_QuizQuestion_def)
  obtain qt where qt: "field q ''question'' = JStr qt"
    using assms(1) is_strE by (auto simp add: inv_QuizQuestion_def)
  obtain ex where ex: "field q ''explanation'' = JStr ex"
    using assms(1) is_strE by (auto simp add: inv_QuizQuestion_def)
  have qn: "qt \<noteq> []" using all_strings_field_str [OF assms(2) qt] .
  have en: "ex \<noteq> []" using all_strings_field_str [OF assms(2) ex] .
  have c: "\<not> nullish (field q ''correct'')" "\<not> correct_out_of_range (field q ''correct'')"
    using assms(1) by (auto simp add: inv_QuizQuestion_def integer_in_0_3_def nullish_def)
  show ?thesis
    using assms(1) n qt ex qn en c
    by (simp add: checkQuiz_question_def quiz_question_def quiz_options_def quiz_correct_def
        quiz_explanation_def inv_QuizQuestion_def isArray_truthy)
qed

lemma checkQuiz_clean:
  assumes "is_str (field sec ''title'')"
    "isArray (field sec ''questions'')" "elems (field sec ''questions'') \<noteq> []"
    "list_all inv_QuizQuestion (elems (field sec ''questions''))"
    "all_strings (\<lambda>s. s \<noteq> []) sec"
  shows "checkQuiz ns sec filePath idx s = Some s"
proof -
  obtain p where p: "prefixOf ns ''quiz'' sec idx = Some p"
    using prefixOf_str [OF assms(1)] by blast
  have a: "all_strings (\<lambda>s. s \<noteq> []) q" if "q \<in> set (elems (field sec ''questions''))" for q
    using all_strings_elems [OF all_strings_field [OF assms(5)] that] .
  have "forEach (checkQuiz_question ns p filePath) (elems (field sec ''questions'')) 0 s = Some s"
    using assms(4) a by (intro forEach_same checkQuiz_question_clean) (auto simp add: list_all_iff)
  then show ?thesis
    using p assms(2,3) by (simp add: checkQuiz_def isArray_truthy)
qed

lemma repeats_from_distinct:
  "distinct ks \<Longrightarrow> set ks \<inter> set earlier = {} \<Longrightarrow> repeats_from earlier ks = []"
  by (induction ks arbitrary: earlier) auto

lemma checkFlashcards_card_clean:
  assumes "inv_Card c"
  shows "checkFlashcards_card ns prefix filePath c i s = Some s"
proof -
  have n: "\<not> nullish c"
    using assms is_str_field_obj by (auto simp add: inv_Card_def inv_VocabItem_def)
  show ?thesis
    using assms n
    by (simp add: checkFlashcards_card_def inv_Card_def inv_VocabItem_def is_str_not_nullish Let_def)
qed

lemma cardKey_japanese:
  assumes "inv_Card c" "all_strings (\<lambda>s. s \<noteq> []) c"
  shows "cardKey c = field c ''japanese'' \<and> cardKey c \<noteq> JStr ''''
    \<and> field c ''japanese'' = JStr (str_of (field c ''japanese''))"
proof -
  obtain k where k: "field c ''japanese'' = JStr k"
    using assms(1) is_strE by (auto simp add: inv_Card_def inv_VocabItem_def)
  have "k \<noteq> []" using all_strings_field_str [OF assms(2) k] .
  then show ?thesis using k by (simp add: cardKey_def jor_def)
qed

lemma fronts_clean:
  assumes "list_all inv_Card cards" "list_all (all_strings (\<lambda>s. s \<noteq> [])) cards"
  shows "fronts cards = map (\<lambda>c. field c ''japanese'') cards
    \<and> map (toStr ns) (fronts cards) = map Some (map (\<lambda>c. str_of (field c ''japanese'')) cards)
    \<and> map (\<lambda>c. field c ''japanese'') cards = map JStr (map (\<lambda>c. str_of (field c ''japanese'')) cards)"
  using assms
proof (induction cards)
  case Nil
  then show ?case by (simp add: fronts_def)
next
  case (Cons c cards)
  have k: "cardKey c = field c ''japanese''" "cardKey c \<noteq> JStr ''''"
    "field c ''japanese'' = JStr (str_of (field c ''japanese''))"
  proof -
    have ic: "inv_Card c" "all_strings (\<lambda>s. s \<noteq> []) c"
      using Cons.prems by simp_all
    show "cardKey c = field c ''japanese''" "cardKey c \<noteq> JStr ''''"
      "field c ''japanese'' = JStr (str_of (field c ''japanese''))"
      using cardKey_japanese [OF ic] by blast+
  qed
  have t: "toStr ns (field c ''japanese'') = Some (str_of (field c ''japanese''))"
    using k(3) by (metis toStr.simps(5))
  have ih: "fronts cards = map (\<lambda>c. field c ''japanese'') cards"
    "map (toStr ns) (fronts cards) = map Some (map (\<lambda>c. str_of (field c ''japanese'')) cards)"
    "map (\<lambda>c. field c ''japanese'') cards = map JStr (map (\<lambda>c. str_of (field c ''japanese'')) cards)"
  proof -
    have p1: "list_all inv_Card cards" "list_all (all_strings (\<lambda>s. s \<noteq> [])) cards"
      using Cons.prems by simp_all
    note ih0 = Cons.IH [OF p1]
    show "fronts cards = map (\<lambda>c. field c ''japanese'') cards"
      "map (toStr ns) (fronts cards) = map Some (map (\<lambda>c. str_of (field c ''japanese'')) cards)"
      "map (\<lambda>c. field c ''japanese'') cards = map JStr (map (\<lambda>c. str_of (field c ''japanese'')) cards)"
      using ih0 by blast+
  qed
  have f: "fronts (c # cards) = field c ''japanese'' # fronts cards"
    using k(1,2) by (simp add: fronts_def)
  have g1: "fronts (c # cards) = map (\<lambda>c. field c ''japanese'') (c # cards)"
    unfolding f by (simp only: ih(1) list.map)
  have g2: "map (toStr ns) (fronts (c # cards)) =
      map Some (map (\<lambda>c. str_of (field c ''japanese'')) (c # cards))"
    unfolding f by (simp only: t ih(2) list.map)
  have "field c ''japanese'' # map (\<lambda>c. field c ''japanese'') cards =
      JStr (str_of (field c ''japanese''))
        # map JStr (map (\<lambda>c. str_of (field c ''japanese'')) cards)"
    by (rule arg_cong2 [where f = Cons, OF k(3) ih(3)])
  then have g3: "map (\<lambda>c. field c ''japanese'') (c # cards) =
      map JStr (map (\<lambda>c. str_of (field c ''japanese'')) (c # cards))"
    by (simp only: list.map)
  show ?case using g1 g2 g3 by blast
qed

lemma checkFlashcards_clean:
  assumes "is_str (field sec ''title'')"
    "isArray (field sec ''cards'')" "elems (field sec ''cards'') \<noteq> []"
    "list_all inv_Card (elems (field sec ''cards''))"
    "distinct (map (\<lambda>c. field c ''japanese'') (elems (field sec ''cards'')))"
    "list_all (\<lambda>c. str_of (field c ''japanese'') \<notin> set Object_prototype_keys)
       (elems (field sec ''cards''))"
    "all_strings (\<lambda>s. s \<noteq> []) sec"
  shows "checkFlashcards ns sec filePath idx s = Some s"
proof -
  let ?cards = "elems (field sec ''cards'')"
  let ?ks = "map (\<lambda>c. str_of (field c ''japanese'')) ?cards"
  obtain p where p: "prefixOf ns ''flashcards'' sec idx = Some p"
    using prefixOf_str [OF assms(1)] by blast
  have a: "list_all (all_strings (\<lambda>s. s \<noteq> [])) ?cards"
    using all_strings_elems [OF all_strings_field [OF assms(7)]] by (simp add: list_all_iff)
  have fe: "forEach (checkFlashcards_card ns p filePath) ?cards 0 s = Some s"
    using assms(4) by (intro forEach_same checkFlashcards_card_clean) (auto simp add: list_all_iff)
  note fr = fronts_clean [OF assms(4) a, of ns]
  have d: "distinct ?ks"
  proof -
    have "distinct (map JStr ?ks)" using assms(5) fr by metis
    then show ?thesis by (metis distinct_map)
  qed
  have o: "set ?ks \<inter> set Object_prototype_keys = {}"
    using assms(6) by (auto simp add: list_all_iff)
  have "checkFlashcards_dups ns p filePath (fronts ?cards) [] s =
     Some (s\<lparr>issues := issues s @ map (duplicate_issue filePath p) (repeats_from [] ?ks)\<rparr>)"
  proof -
    have m: "map (toStr ns) (fronts ?cards) = map Some ?ks" using fr by blast
    have e: "set [] \<inter> set Object_prototype_keys = {}" by simp
    show ?thesis by (rule checkFlashcards_dups_repeats [OF m o e])
  qed
  then have du: "checkFlashcards_dups ns p filePath (fronts ?cards) [] s = Some s"
    using repeats_from_distinct [OF d, of "[]"] by simp
  show ?thesis
    using p assms(2,3) fe du by (simp add: checkFlashcards_def isArray_truthy)
qed

lemma auditUnit_section_clean:
  assumes "inv_Section sec" "extras_Section sec" "all_strings (\<lambda>s. s \<noteq> []) sec"
  shows "auditUnit_section ns rel sec idx (s, T) =
    Some (s\<lparr>totalSectionsChecked := totalSectionsChecked s + 1\<rparr>, insert (field sec ''type'') T)"
proof -
  have t: "is_str (field sec ''title'')"
    using assms(1) by (simp add: inv_Section_def)
  have n: "\<not> nullish sec" using is_str_field_obj [OF t] .
  let ?s0 = "s\<lparr>totalSectionsChecked := totalSectionsChecked s + 1\<rparr>"
  consider (vocab) "field sec ''type'' = JStr ''vocab''"
    | (dialogue) "field sec ''type'' = JStr ''dialogue''"
    | (grammar) "field sec ''type'' = JStr ''grammar''"
    | (flashcards) "field sec ''type'' = JStr ''flashcards''"
    | (quiz) "field sec ''type'' = JStr ''quiz''"
    | (culture) "field sec ''type'' = JStr ''culture''"
    using assms(1) unfolding inv_Section_def by metis
  then show ?thesis
  proof cases
    case vocab
    have "checkVocab ns sec rel idx ?s0 = Some ?s0"
      using assms(1,2) vocab t
      by (intro checkVocab_clean) (simp_all add: inv_Section_def extras_Section_def)
    then show ?thesis using n vocab by (simp add: auditUnit_section_def Let_def)
  next
    case dialogue
    have "checkDialogue ns sec rel idx ?s0 = Some ?s0"
      using assms(1,2) dialogue t
      by (intro checkDialogue_clean) (simp_all add: inv_Section_def extras_Section_def)
    then show ?thesis using n dialogue by (simp add: auditUnit_section_def Let_def)
  next
    case grammar
    have "checkGrammar ns sec rel idx ?s0 = Some ?s0"
      using assms(1,2) grammar t
      by (intro checkGrammar_clean) (simp_all add: inv_Section_def extras_Section_def)
    then show ?thesis using n grammar by (simp add: auditUnit_section_def Let_def)
  next
    case flashcards
    have "checkFlashcards ns sec rel idx ?s0 = Some ?s0"
      using assms flashcards t
      by (intro checkFlashcards_clean) (simp_all add: inv_Section_def extras_Section_def)
    then show ?thesis using n flashcards by (simp add: auditUnit_section_def Let_def)
  next
    case quiz
    have "checkQuiz ns sec rel idx ?s0 = Some ?s0"
      using assms quiz t
      by (intro checkQuiz_clean) (simp_all add: inv_Section_def extras_Section_def)
    then show ?thesis using n quiz by (simp add: auditUnit_section_def Let_def)
  next
    case culture
    have "checkCulture ns sec rel idx ?s0 = Some ?s0"
      using assms(1) culture t
      by (intro checkCulture_clean) (simp_all add: inv_Section_def)
    then show ?thesis using n culture by (simp add: auditUnit_section_def Let_def)
  qed
qed

lemma forEach_sections_clean:
  assumes "list_all (\<lambda>sec. inv_Section sec \<and> extras_Section sec \<and> all_strings (\<lambda>s. s \<noteq> []) sec) secs"
  shows "forEach (auditUnit_section ns rel) secs i (s, T) =
    Some (s\<lparr>totalSectionsChecked := totalSectionsChecked s + length secs\<rparr>,
          T \<union> set (map (\<lambda>sec. field sec ''type'') secs))"
  using assms
proof (induction secs arbitrary: i s T)
  case Nil
  then show ?case by simp
next
  case (Cons sec secs)
  have c: "inv_Section sec" "extras_Section sec" "all_strings (\<lambda>s. s \<noteq> []) sec"
    using Cons.prems by simp_all
  have r: "list_all (\<lambda>sec. inv_Section sec \<and> extras_Section sec \<and> all_strings (\<lambda>s. s \<noteq> []) sec) secs"
    using Cons.prems by simp
  show ?case
    by (simp add: auditUnit_section_clean [OF c] Cons.IH [OF r])
qed

text \<open>
  Claim C1, as amended. For every unit document that satisfies the invariants of
  section 3 of the specification (\<open>inv_UnitDocument\<close>) and the further conditions of
  \<open>audit_extras\<close> (every vocab item carries \<open>example\<close> and \<open>exampleChinese\<close> as
  well, no sequence of a section is empty, the five required types are there, no string
  holds a forbidden name, no string under \<open>sections\<close> is empty, no flashcard
  \<open>japanese\<close> value is an inherited property name), the whole of \<open>auditUnit\<close>, that
  is the general-field checks, every section validator, the required-section check and
  both content scans, returns without throwing and records no Issue: the state changes
  in its two counters only. An empty string outside \<open>sections\<close>, as an empty \<open>id\<close>,
  does not matter.
\<close>

theorem clean_unit_no_issues:
  "inv_UnitDocument d \<and> audit_extras d \<longrightarrow>
   auditUnit ns rel (Inr d) s =
     Some (s\<lparr>totalUnitsChecked := totalUnitsChecked s + 1,
             totalSectionsChecked := totalSectionsChecked s + length (elems (field d ''sections''))\<rparr>)"
proof
  assume a: "inv_UnitDocument d \<and> audit_extras d"
  let ?secs = "elems (field d ''sections'')"
  let ?s0 = "s\<lparr>totalUnitsChecked := totalUnitsChecked s + 1\<rparr>"
  have inv: "nonempty_str (field d ''title'')" "nonempty_str (field d ''intro'')"
    "nonempty_str (field d ''estimatedTime'')" "isArray (field d ''sections'')" "?secs \<noteq> []"
    "list_all inv_Section ?secs"
    using a by (simp_all add: inv_UnitDocument_def)
  have ex: "list_all extras_Section ?secs"
    "list_all (\<lambda>req. JStr req \<in> set (map (\<lambda>sec. field sec ''type'') ?secs))
           [''flashcards'', ''quiz'', ''vocab'', ''dialogue'', ''grammar'']"
    "all_strings (\<lambda>s. \<not> includes_str s forbidden1 \<and> \<not> includes_str s forbidden2) d"
    "list_all (\<lambda>kv. all_strings (\<lambda>s. s \<noteq> []) (snd kv))
       (filter (\<lambda>kv. startsWith (fst kv) ''sections'') (entries d))"
    using a by (simp_all add: audit_extras_def)
  obtain kvs where d: "d = JObj kvs"
    using inv(4) by (cases d) simp_all
  obtain v where v: "map_of kvs ''sections'' = Some v"
    using inv(4) d by (cases "map_of kvs ''sections''") simp_all
  have fv: "field d ''sections'' = v" using d v by simp
  have sv: "all_strings (\<lambda>s. s \<noteq> []) v"
  proof -
    have "(''sections'', v) \<in> set kvs" using v by (rule map_of_SomeD)
    moreover have "startsWith ''sections'' ''sections''" by (simp add: startsWith_def)
    ultimately have "(''sections'', v) \<in> set (filter (\<lambda>kv. startsWith (fst kv) ''sections'') kvs)"
      by simp
    then have "all_strings (\<lambda>s. s \<noteq> []) (snd (''sections'', v))"
      using ex(4) unfolding d entries.simps list_all_iff by blast
    then show ?thesis by simp
  qed
  obtain t where t: "field d ''title'' = JStr t" "t \<noteq> []"
    using nonempty_strE [OF inv(1)] by blast
  obtain i where i: "field d ''intro'' = JStr i" "i \<noteq> []"
    using nonempty_strE [OF inv(2)] by blast
  obtain e where e: "field d ''estimatedTime'' = JStr e" "e \<noteq> []"
    using nonempty_strE [OF inv(3)] by blast
  have n: "\<not> nullish d"
    using t(1) field_nullish [of d "''title''"] by auto
  have sn: "\<not> nullish (field d ''sections'')"
    using inv(4) by (cases "field d ''sections''") (simp_all add: nullish_def)
  have g: "auditUnit_general rel d ?s0 = ?s0"
    using t i e sn by (simp add: auditUnit_general_def nullish_def)
  have se: "list_all (all_strings (\<lambda>s. s \<noteq> [])) ?secs"
    using all_strings_elems [OF sv] unfolding fv by (simp add: list_all_iff)
  have cl: "list_all (\<lambda>sec. inv_Section sec \<and> extras_Section sec \<and> all_strings (\<lambda>s. s \<noteq> []) sec) ?secs"
    using inv(6) ex(1) se by (simp add: list_all_iff)
  have loop: "forEach (auditUnit_section ns rel) ?secs 0 (?s0, {}) =
      Some (?s0\<lparr>totalSectionsChecked := totalSectionsChecked ?s0 + length ?secs\<rparr>,
            {} \<union> set (map (\<lambda>sec. field sec ''type'') ?secs))"
    by (rule forEach_sections_clean [OF cl])
  have req: "auditUnit_required rel ({} \<union> set (map (\<lambda>sec. field sec ''type'') ?secs)) s' = s'" for s'
    using ex(2) by (simp add: auditUnit_required_def)
  have fb: "auditUnit_forbidden rel d s' = s'" for s'
    using findForbiddenNames_none(1) [of d] ex(3) by (simp add: auditUnit_forbidden_def)
  have em: "auditUnit_empty rel d s' = s'" for s'
  proof -
    have "filter (\<lambda>p. startsWith p ''root.sections'') (findEmptyStrings d ''root'' []) = []"
      unfolding d findEmptyStrings.simps
      by (rule top_level_paths) (use ex(4) d in simp)
    then show ?thesis
      unfolding auditUnit_empty_def Let_def fold_addIssue_filter by simp
  qed
  show "auditUnit ns rel (Inr d) s =
     Some (s\<lparr>totalUnitsChecked := totalUnitsChecked s + 1,
             totalSectionsChecked := totalSectionsChecked s + length ?secs\<rparr>)"
    using n g inv(4,5) loop req fb em
    by (simp add: auditUnit_def Let_def isArray_truthy)
qed

theorem clean_unit_no_issues_witness:
  "inv_UnitDocument
     (example_unit_empty_id (JObj [(''japanese'', JStr ''neko''), (''reading'', JStr ''neko''),
        (''romaji'', JStr ''neko''), (''chinese'', JStr ''mao''), (''example'', JStr ''ex''),
        (''exampleChinese'', JStr ''exc'')]))
   \<and> audit_extras
     (example_unit_empty_id (JObj [(''japanese'', JStr ''neko''), (''reading'', JStr ''neko''),
        (''romaji'', JStr ''neko''), (''chinese'', JStr ''mao''), (''example'', JStr ''ex''),
        (''exampleChinese'', JStr ''exc'')]))
   \<and> auditUnit (\<lambda>q. []) ''ch1/unit1.json''
     (Inr (example_unit_empty_id (JObj [(''japanese'', JStr ''neko''), (''reading'', JStr ''neko''),
        (''romaji'', JStr ''neko''), (''chinese'', JStr ''mao''), (''example'', JStr ''ex''),
        (''exampleChinese'', JStr ''exc'')])))
     initial_state =
     Some \<lparr>issues = [], totalUnitsChecked = 1, totalSectionsChecked = 5\<rparr>"
proof -
  let ?d = "example_unit_empty_id (JObj [(''japanese'', JStr ''neko''), (''reading'', JStr ''neko''),
        (''romaji'', JStr ''neko''), (''chinese'', JStr ''mao''), (''example'', JStr ''ex''),
        (''exampleChinese'', JStr ''exc'')])"
  have h1: "inv_UnitDocument ?d" by code_simp
  have h2: "audit_extras ?d" by code_simp
  have l: "length (elems (field ?d ''sections'')) = 5"
    by (simp add: example_unit_empty_id_def example_sections_def)
  have "auditUnit (\<lambda>q. []) ''ch1/unit1.json'' (Inr ?d) initial_state =
     Some (initial_state\<lparr>totalUnitsChecked := totalUnitsChecked initial_state + 1,
             totalSectionsChecked := totalSectionsChecked initial_state
               + length (elems (field ?d ''sections''))\<rparr>)"
    using clean_unit_no_issues [where d = ?d and ns = "\<lambda>q. []" and rel = "''ch1/unit1.json''"
        and s = initial_state] h1 h2 by blast
  then show ?thesis
    using h1 h2 unfolding l by (simp add: initial_state_def)
qed

text \<open>
  The claim as stated fails: the same unit with a vocab item that carries the four
  mandatory fields only satisfies every invariant of section 3 and gets two Issues.
\<close>

theorem vocab_without_example_counterexample:
  \<open>inv_UnitDocument
     (example_unit (JObj [(''japanese'', JStr ''neko''), (''reading'', JStr ''neko''),
        (''romaji'', JStr ''neko''), (''chinese'', JStr ''mao'')]))
   \<and> auditUnit (\<lambda>q. []) ''ch1/unit1.json''
     (Inr (example_unit (JObj [(''japanese'', JStr ''neko''), (''reading'', JStr ''neko''),
        (''romaji'', JStr ''neko''), (''chinese'', JStr ''mao'')])))
     initial_state =
     Some \<lparr>issues =
        [\<lparr>file = ''ch1/unit1.json'', sectionType = ''vocab'',
           problem = ''sections[0] (vocab "V"): items[0] missing "example" (japanese: "neko")''\<rparr>,
         \<lparr>file = ''ch1/unit1.json'', sectionType = ''vocab'',
           problem = ''sections[0] (vocab "V"): items[0] missing "exampleChinese" (japanese: "neko")''\<rparr>],
       totalUnitsChecked = 1, totalSectionsChecked = 5\<rparr>\<close>
  by code_simp

end
